theory Spec2Isabelle
  imports Main "HOL-Library.Log_Nat"
begin

unbundle bit_operations_syntax

section \<open>AngelEyes: the frame-annotation loop of \<open>main.py\<close>\<close>

text \<open>
  The development embeds class \<open>ObjectDetectionUI\<close> of \<open>src/main.py\<close>: the three drawing
  passes, the frame-rate counter and one pass of the \<open>while True\<close> loop of \<open>run\<close>.
  Everything the loop reads from outside (camera, detector, clocks, keyboard) is an explicit
  input of the pass; everything it keeps (the object's attributes and the local \<open>img\<close>)
  is explicit state.
\<close>

subsection \<open>Python values\<close>

datatype py_error = ZeroDivisionError | UnboundLocalError

text \<open>
  A Python \<open>float\<close> is a binary64 number. It is carried here as the rational it denotes,
  and every arithmetic operation rounds its exact result to the nearest number with a
  53-bit significand, ties to even. The exponent range is not bounded (no overflow to
  infinity, no subnormals): the loop only computes with thresholds in \<open>[0.05, 1.05]\<close>,
  clock readings and their quotients.
\<close>

definition round_half_even :: "rat \<Rightarrow> int" where
  "round_half_even q =
     (let f = \<lfloor>q\<rfloor>; d = q - of_int f
      in if d < 1 / 2 then f else if 1 / 2 < d then f + 1 else if even f then f else f + 1)"

definition pow2 :: "int \<Rightarrow> rat" where
  "pow2 e = (if 0 \<le> e then 2 ^ nat e else 1 / 2 ^ nat (- e))"

text \<open>\<open>binade q\<close> is the exponent \<open>e\<close> with \<open>2^e \<le> q < 2^(e+1)\<close>, for \<open>q > 0\<close>.\<close>

definition binade :: "rat \<Rightarrow> int" where
  "binade q = (if 1 \<le> q then int (floorlog 2 (nat \<lfloor>q\<rfloor>)) - 1
               else - int (floorlog 2 (nat \<lceil>1 / q\<rceil> - 1)))"

definition fl :: "rat \<Rightarrow> rat" where
  "fl q = (if q = 0 then 0
           else let a = \<bar>q\<bar>; u = pow2 (binade a - 52)
                in sgn q * of_int (round_half_even (a / u)) * u)"

definition fadd :: "rat \<Rightarrow> rat \<Rightarrow> rat" where
  "fadd x y = fl (x + y)"

definition fsub :: "rat \<Rightarrow> rat \<Rightarrow> rat" where
  "fsub x y = fl (x - y)"

text \<open>Python's \<open>/\<close> raises on a zero divisor; HOL's division would return 0.\<close>

definition fdiv :: "rat \<Rightarrow> rat \<Rightarrow> py_error + rat" where
  "fdiv x y = (if y = 0 then Inl ZeroDivisionError else Inr (fl (x / y)))"

text \<open>The float literals of the threshold arithmetic: \<open>0.05\<close>, \<open>0.1\<close>, \<open>1.0\<close>, \<open>0.5\<close>.\<close>

definition lit_0_05 :: rat where "lit_0_05 = fl (5 / 100)"
definition lit_0_1 :: rat where "lit_0_1 = fl (1 / 10)"
definition lit_1_0 :: rat where "lit_1_0 = fl 1"
definition lit_0_5 :: rat where "lit_0_5 = fl (5 / 10)"

text \<open>\<open>ord(c)\<close>, \<open>str(n)\<close> for an integer, and \<open>sep.join(xs)\<close>.\<close>

definition ord :: "char \<Rightarrow> int" where
  "ord c = of_char c"

definition digit_char :: "nat \<Rightarrow> char" where
  "digit_char n = char_of (48 + n)"

fun str_nat :: "nat \<Rightarrow> string" where
  "str_nat n = (if n < 10 then [digit_char n] else str_nat (n div 10) @ [digit_char (n mod 10)])"

declare str_nat.simps [simp del]

definition str_int :: "int \<Rightarrow> string" where
  "str_int i = (if i < 0 then CHR ''-'' # str_nat (nat (- i)) else str_nat (nat i))"

fun join :: "string \<Rightarrow> string list \<Rightarrow> string" where
  "join sep [] = []"
| "join sep [x] = x"
| "join sep (x # y # ys) = x @ sep @ join sep (y # ys)"

text \<open>
  Library behaviour the source calls and this repository does not define:
  \<open>cv2.getTextSize(text, font, scale, thickness)\<close> (its \<open>(width, height)\<close> part; the font is
  always \<open>FONT_HERSHEY_SIMPLEX\<close>), the format \<open>:.1f\<close>, \<open>str.upper\<close>, and the order in which
  \<open>list(set(xs))\<close> enumerates the set built from the list \<open>xs\<close> (CPython orders a set of
  strings by their hashes, which are salted per process).
\<close>

record pylib =
  getTextSize :: "string \<Rightarrow> rat \<Rightarrow> int \<Rightarrow> int \<times> int"
  format_1f :: "rat \<Rightarrow> string"
  upper :: "string \<Rightarrow> string"
  list_of_set :: "string list \<Rightarrow> string list"

text \<open>What Python guarantees of \<open>list(set(xs))\<close>: each element of \<open>xs\<close> once, in some order.\<close>

definition enumerates :: "string list \<Rightarrow> string list \<Rightarrow> bool" where
  "enumerates ys xs \<longleftrightarrow> distinct ys \<and> set ys = set xs"

subsection \<open>Images\<close>

text \<open>
  An image is the camera frame it started from together with the \<open>cv2\<close> drawing calls applied
  to it, in order. Two images that are equal as such terms have equal pixels; the converse
  need not hold (a call may draw outside the frame). A decimal literal handed to \<open>cv2\<close>
  (a font scale, a blending weight) is written as the decimal itself.
\<close>

type_synonym point = "int \<times> int"
type_synonym color = "int \<times> int \<times> int"

datatype image =
    Capture nat int int
  | Rectangle image point point color int
  | Line image point point color int
  | PutText image string point rat color int
  | AddWeighted image rat image rat rat

text \<open>\<open>img.shape[:2]\<close>: height and width; \<open>Capture n h w\<close> is the \<open>n\<close>-th camera frame.\<close>

fun shape :: "image \<Rightarrow> int \<times> int" where
  "shape (Capture n h w) = (h, w)"
| "shape (Rectangle img p1 p2 c t) = shape img"
| "shape (Line img p1 p2 c t) = shape img"
| "shape (PutText img s p sc c t) = shape img"
| "shape (AddWeighted img a ov b g) = shape img"

subsection \<open>Detections and the object's attributes\<close>

text \<open>
  A detection is the dictionary built on lines 208 to 213 of \<open>run\<close>, the only place that
  builds one: it always has the four keys. Box coordinates and class ids are Python
  integers here (the detector returns 32-bit ones; nothing below depends on their wrapping).
\<close>

record detection =
  box :: "int \<times> int \<times> int \<times> int"
  class_name :: string
  confidence :: rat
  class_id :: int

record 't history_entry =
  time :: 't
  count :: int
  objects :: "string list"

record 't ui =
  thres :: rat
  classNames :: "string list"
  model_loaded :: bool
  fps_counter :: int
  fps_start_time :: rat
  current_fps :: rat
  detection_history :: "'t history_entry list"
  show_stats :: bool
  paused :: bool

definition colors :: "color list" where
  "colors = [(255, 100, 100), (100, 255, 100), (100, 100, 255),
             (255, 255, 100), (255, 100, 255), (100, 255, 255),
             (200, 150, 100), (150, 200, 100), (100, 150, 200)]"

definition font_scale :: rat where "font_scale = 8 / 10"
definition thickness :: int where "thickness = 2"

text \<open>The attributes after \<open>__init__\<close>, given the class list, whether the model loaded, and the clock.\<close>

definition init :: "string list \<Rightarrow> bool \<Rightarrow> rat \<Rightarrow> 't ui" where
  "init names loaded now =
     \<lparr>thres = lit_0_5, classNames = names, model_loaded = loaded, fps_counter = 0,
      fps_start_time = now, current_fps = 0, detection_history = [],
      show_stats = True, paused = False\<rparr>"

subsection \<open>\<open>draw_header\<close>\<close>

definition draw_header :: "pylib \<Rightarrow> 't ui \<Rightarrow> image \<Rightarrow> image" where
  "draw_header lib self img =
     (let (height, width) = shape img;
          overlay = Rectangle img (0, 0) (width, 80) (0, 0, 0) (- 1);
          img = AddWeighted img (7 / 10) overlay (3 / 10) 0;
          img = PutText img ''AngelEyes - Object Detection'' (10, 30) (8 / 10) (255, 255, 255) 2;
          settings = ''Threshold: '' @ format_1f lib (thres self) @ '' | FPS: ''
                     @ format_1f lib (current_fps self)
      in PutText img settings (10, 55) (5 / 10) (150, 255, 150) 1)"

subsection \<open>\<open>draw_footer_stats\<close>\<close>

text \<open>
  Lines 100 to 103: the class names in input order. The test \<open>'class_name' in detection\<close>
  holds of every \<^typ>\<open>detection\<close>.
\<close>

fun detected_objects :: "detection list \<Rightarrow> string list" where
  "detected_objects [] = []"
| "detected_objects (d # ds) = class_name d # detected_objects ds"

text \<open>Lines 106 to 109: the text of the object list.\<close>

definition objects_text :: "pylib \<Rightarrow> string list \<Rightarrow> string" where
  "objects_text lib names =
     (let unique_objects = list_of_set lib names;
          text = ''Detected: '' @ join '', '' (take 4 unique_objects)
      in if length unique_objects > 4 then text @ ''...'' else text)"

text \<open>\<open>now\<close> is the value of \<open>datetime.now().strftime("%H:%M:%S")\<close> read on line 93.\<close>

definition draw_footer_stats :: "pylib \<Rightarrow> 't ui \<Rightarrow> string \<Rightarrow> image \<Rightarrow> detection list \<Rightarrow> image" where
  "draw_footer_stats lib self now img detections =
     (if \<not> show_stats self then img
      else
        let (height, width) = shape img;
            overlay = Rectangle img (0, height - 80) (width, height) (0, 0, 0) (- 1);
            img = AddWeighted img (7 / 10) overlay (3 / 10) 0;
            detection_count = (if detections \<noteq> [] then int (length detections) else 0);
            img = PutText img (''Objects: '' @ str_int detection_count @ '' | Time: '' @ now)
                    (10, height - 50) (6 / 10) (100, 255, 100) 1
        in if detections \<noteq> [] \<and> length detections > 0 then
             let names = detected_objects detections
             in if names \<noteq> [] then
                  PutText img (objects_text lib names) (10, height - 20) (5 / 10) (255, 255, 100) 1
                else img
           else img)"

subsection \<open>\<open>draw_enhanced_bounding_boxes\<close>\<close>

text \<open>
  Line 149: the confidence as a percentage with one decimal. The product is handed to the
  format as it is; how the detector's 32-bit float rounds it is left to \<open>format_1f\<close>.
\<close>

definition percent_text :: "pylib \<Rightarrow> rat \<Rightarrow> string" where
  "percent_text lib conf = format_1f lib (conf * 100) @ ''%''"

text \<open>Lines 121 to 167: the body of the loop, for the \<open>i\<close>-th detection.\<close>

definition draw_box :: "pylib \<Rightarrow> image \<Rightarrow> nat \<Rightarrow> detection \<Rightarrow> image" where
  "draw_box lib img i d =
     (let (x, y, w, h) = box d;
          color = colors ! (i mod length colors);
          img = Rectangle img (x, y) (x + w, y + h) color 2;
          corner_length = 20;
          corner_thickness = 3;
          img = Line img (x, y) (x + corner_length, y) color corner_thickness;
          img = Line img (x, y) (x, y + corner_length) color corner_thickness;
          img = Line img (x + w, y) (x + w - corner_length, y) color corner_thickness;
          img = Line img (x + w, y) (x + w, y + corner_length) color corner_thickness;
          img = Line img (x, y + h) (x + corner_length, y + h) color corner_thickness;
          img = Line img (x, y + h) (x, y + h - corner_length) color corner_thickness;
          img = Line img (x + w, y + h) (x + w - corner_length, y + h) color corner_thickness;
          img = Line img (x + w, y + h) (x + w, y + h - corner_length) color corner_thickness;
          label = upper lib (class_name d);
          confidence_text = percent_text lib (confidence d);
          (label_w, label_h) = getTextSize lib label font_scale thickness;
          (conf_w, conf_h) = getTextSize lib confidence_text (5 / 10) 1;
          label_y = max y 90;
          label_bg_height = max label_h conf_h + 15;
          img = Rectangle img (x, label_y - label_bg_height) (x + max label_w conf_w + 15, label_y)
                  color (- 1);
          img = Rectangle img (x, label_y - label_bg_height) (x + max label_w conf_w + 15, label_y)
                  (255, 255, 255) 1;
          img = PutText img label (x + 8, label_y - label_bg_height + label_h + 3)
                  font_scale (255, 255, 255) thickness
      in PutText img confidence_text (x + 8, label_y - 3) (5 / 10) (255, 255, 255) 1)"

text \<open>The loop over \<open>enumerate(detections)\<close>, from index \<open>i\<close> on.\<close>

fun draw_boxes_from :: "pylib \<Rightarrow> nat \<Rightarrow> image \<Rightarrow> detection list \<Rightarrow> image" where
  "draw_boxes_from lib i img [] = img"
| "draw_boxes_from lib i img (d # ds) = draw_boxes_from lib (Suc i) (draw_box lib img i d) ds"

definition draw_enhanced_bounding_boxes :: "pylib \<Rightarrow> image \<Rightarrow> detection list \<Rightarrow> image" where
  "draw_enhanced_bounding_boxes lib img detections =
     (if detections = [] then img else draw_boxes_from lib 0 img detections)"

text \<open>
  The filled rectangle (\<open>cv2.rectangle\<close> with thickness \<open>-1\<close>) drawn last on an image, if
  one was drawn since the image was captured or blended: its two corners.
\<close>

fun last_filled_rectangle :: "image \<Rightarrow> (point \<times> point) option" where
  "last_filled_rectangle (Capture n h w) = None"
| "last_filled_rectangle (Rectangle img p1 p2 c t) =
     (if t = - 1 then Some (p1, p2) else last_filled_rectangle img)"
| "last_filled_rectangle (Line img p1 p2 c t) = last_filled_rectangle img"
| "last_filled_rectangle (PutText img s p sc c t) = last_filled_rectangle img"
| "last_filled_rectangle (AddWeighted img a ov b g) = None"

text \<open>The text of the \<open>cv2.putText\<close> call made last on an image, if one was made since the last blend.\<close>

fun last_text :: "image \<Rightarrow> string option" where
  "last_text (Capture n h w) = None"
| "last_text (Rectangle img p1 p2 c t) = last_text img"
| "last_text (Line img p1 p2 c t) = last_text img"
| "last_text (PutText img s p sc c t) = Some s"
| "last_text (AddWeighted img a ov b g) = None"

subsection \<open>\<open>calculate_fps\<close>\<close>

text \<open>
  \<open>t1\<close> and \<open>t2\<close> are the values of the two calls of \<open>time.time()\<close> on lines 175 and 178;
  they are read only when the counter has reached 30.
\<close>

definition calculate_fps :: "rat \<Rightarrow> rat \<Rightarrow> 't ui \<Rightarrow> py_error + 't ui" where
  "calculate_fps t1 t2 self =
     (let self = self\<lparr>fps_counter := fps_counter self + 1\<rparr>
      in if fps_counter self \<ge> 30 then
           let end_time = t1
           in case fdiv (fl (of_int (fps_counter self))) (fsub end_time (fps_start_time self)) of
                Inl e \<Rightarrow> Inl e
              | Inr fps \<Rightarrow> Inr (self\<lparr>current_fps := fps, fps_counter := 0, fps_start_time := t2\<rparr>)
         else Inr self)"

text \<open>Successive calls, one pair of clock readings for each; the first error stops them.\<close>

fun fps_calls :: "(rat \<times> rat) list \<Rightarrow> 't ui \<Rightarrow> py_error + 't ui" where
  "fps_calls [] self = Inr self"
| "fps_calls ((t1, t2) # ts) self =
     (case calculate_fps t1 t2 self of Inl e \<Rightarrow> Inl e | Inr self' \<Rightarrow> fps_calls ts self')"

subsection \<open>One pass of the loop of \<open>run\<close>\<close>

text \<open>
  What one pass reads from outside: the result of \<open>self.cap.read()\<close>; the result of
  \<open>self.net.detect\<close> (\<open>Inl\<close> when it raises, else the class ids, confidences and boxes,
  already flattened); \<open>datetime.now()\<close> of line 220 and its \<open>strftime\<close> of line 93; the two
  readings of \<open>time.time()\<close>; and the value of \<open>cv2.waitKey(1)\<close>.
\<close>

record 't world =
  cap_read :: "bool \<times> image"
  net_detect :: "unit + (int list \<times> rat list \<times> (int \<times> int \<times> int \<times> int) list)"
  datetime_now :: 't
  strftime_now :: string
  time1 :: rat
  time2 :: rat
  waitKey :: int

text \<open>Lines 206 to 213: the loop over the zipped detector results.\<close>

fun build_detections :: "string list \<Rightarrow> (int \<times> rat \<times> (int \<times> int \<times> int \<times> int)) list \<Rightarrow> detection list
    \<Rightarrow> detection list" where
  "build_detections names [] detections = detections"
| "build_detections names ((classId, conf, b) # rest) detections =
     (if 0 \<le> classId - 1 \<and> classId - 1 < int (length names) then
        build_detections names rest
          (detections @ [\<lparr>box = b, class_name = names ! nat (classId - 1),
                           confidence = conf, class_id = classId\<rparr>])
      else build_detections names rest detections)"

text \<open>Lines 200 to 215.\<close>

definition detect_objects :: "'t ui \<Rightarrow> 't world \<Rightarrow> detection list" where
  "detect_objects self w =
     (if model_loaded self \<and> \<not> paused self then
        case net_detect w of
          Inl exn \<Rightarrow> []
        | Inr (classIds, confs, bbox) \<Rightarrow>
            if length classIds \<noteq> 0 then build_detections (classNames self) (zip classIds (zip confs bbox)) []
            else []
      else [])"

text \<open>Lines 219 to 223: the dictionary appended to the history.\<close>

definition entry_of :: "'t \<Rightarrow> detection list \<Rightarrow> 't history_entry" where
  "entry_of now detections =
     \<lparr>time = now, count = int (length detections), objects = map class_name detections\<rparr>"

text \<open>Lines 218 to 226, on the history list alone; \<open>pop(0)\<close> removes the first element.\<close>

definition update_history :: "'t \<Rightarrow> detection list \<Rightarrow> 't history_entry list \<Rightarrow> 't history_entry list" where
  "update_history now detections history =
     (if detections \<noteq> [] then
        let history = history @ [entry_of now detections]
        in if length history > 100 then tl history else history
      else history)"

text \<open>Lines 229 to 238: the three passes and the pause indicator.\<close>

definition compose :: "pylib \<Rightarrow> 't ui \<Rightarrow> string \<Rightarrow> image \<Rightarrow> detection list \<Rightarrow> image" where
  "compose lib self now img detections =
     (let img = draw_header lib self img;
          img = draw_enhanced_bounding_boxes lib img detections;
          img = draw_footer_stats lib self now img detections
      in if paused self then
           let (height, width) = shape img
           in PutText img ''PAUSED - Press P to resume'' (width div 2 - 150, height div 2)
                1 (0, 0, 255) 2
         else img)"

text \<open>Lines 247 to 264: \<open>None\<close> is the \<open>break\<close>.\<close>

definition handle_key :: "int \<Rightarrow> 't ui \<Rightarrow> 't ui option" where
  "handle_key k self =
     (let key = k AND 255
      in if key = ord CHR ''q'' \<or> key = ord CHR ''Q'' then None
         else if key = ord CHR ''s'' \<or> key = ord CHR ''S'' then
           Some (self\<lparr>show_stats := \<not> show_stats self\<rparr>)
         else if key = ord CHR ''p'' \<or> key = ord CHR ''P'' then
           Some (self\<lparr>paused := \<not> paused self\<rparr>)
         else if key = ord CHR ''r'' \<or> key = ord CHR ''R'' then
           Some (self\<lparr>detection_history := []\<rparr>)
         else if key = ord CHR ''+'' \<or> key = ord CHR ''='' then
           Some (self\<lparr>thres := min lit_1_0 (fadd (thres self) lit_0_05)\<rparr>)
         else if key = ord CHR ''-'' then
           Some (self\<lparr>thres := max lit_0_1 (fsub (thres self) lit_0_05)\<rparr>)
         else Some self)"

text \<open>The key handling of successive passes; the first \<open>break\<close> ends it.\<close>

fun handle_keys :: "int list \<Rightarrow> 't ui \<Rightarrow> 't ui option" where
  "handle_keys [] self = Some self"
| "handle_keys (k # ks) self =
     (case handle_key k self of None \<Rightarrow> None | Some self' \<Rightarrow> handle_keys ks self')"

text \<open>
  The state between two passes is the object and the local variable \<open>img\<close> (\<open>None\<close> while
  it is unbound). A pass ends the loop, or raises, or goes on with the new state; the image
  it goes on with is the one it displayed.
\<close>

datatype 't pass = Break "'t ui" | Raise py_error | Continue "'t ui" image

definition iteration :: "pylib \<Rightarrow> 't world \<Rightarrow> 't ui \<times> image option \<Rightarrow> 't pass" where
  "iteration lib w st =
     (let (self, img) = st;
          (success, frame) = cap_read w
      in if \<not> paused self \<and> \<not> success then Break self
         else
           let img = (if \<not> paused self then Some frame else img);
               detections = detect_objects self w;
               self = self\<lparr>detection_history :=
                              update_history (datetime_now w) detections (detection_history self)\<rparr>
           in case img of
                None \<Rightarrow> Raise UnboundLocalError
              | Some img \<Rightarrow>
                  let img = compose lib self (strftime_now w) img detections
                  in case calculate_fps (time1 w) (time2 w) self of
                       Inl e \<Rightarrow> Raise e
                     | Inr self \<Rightarrow>
                         (case handle_key (waitKey w) self of
                            None \<Rightarrow> Break self
                          | Some self \<Rightarrow> Continue self img))"

subsection \<open>Sample inputs\<close>

definition d0 :: detection where
  "d0 = \<lparr>box = (100, 200, 50, 60), class_name = ''person'', confidence = 9 / 10, class_id = 1\<rparr>"

text \<open>
  A library for the sample runs: a text metric that grows with the scale, \<open>:.1f\<close> as
  rounding to one decimal (ties to even), upper case for ASCII letters, and a set order
  that happens to be the reverse of the order of first appearance.
\<close>

definition sample_text_size :: "string \<Rightarrow> rat \<Rightarrow> int \<Rightarrow> int \<times> int" where
  "sample_text_size s scale t = (\<lfloor>20 * scale\<rfloor> * int (length s), \<lfloor>22 * scale\<rfloor>)"

definition fmt_1f :: "rat \<Rightarrow> string" where
  "fmt_1f q =
     (let n = round_half_even (\<bar>q\<bar> * 10);
          s = str_int (n div 10) @ ''.'' @ str_int (n mod 10)
      in if q < 0 then CHR ''-'' # s else s)"

definition ascii_upper :: "string \<Rightarrow> string" where
  "ascii_upper s =
     map (\<lambda>c. let n = (of_char c :: nat) in if 97 \<le> n \<and> n \<le> 122 then char_of (n - 32) else c) s"

text \<open>The distinct elements of a list in the order of their first appearance.\<close>

fun first_seen :: "string list \<Rightarrow> string list" where
  "first_seen [] = []"
| "first_seen (x # xs) = x # filter (\<lambda>y. y \<noteq> x) (first_seen xs)"

definition reversed_first_seen :: "string list \<Rightarrow> string list" where
  "reversed_first_seen xs = rev (first_seen xs)"

definition lib0 :: pylib where
  "lib0 = \<lparr>getTextSize = sample_text_size, format_1f = fmt_1f, upper = ascii_upper,
           list_of_set = reversed_first_seen\<rparr>"

definition coco5 :: "string list" where
  "coco5 = [''person'', ''bicycle'', ''car'', ''motorcycle'', ''airplane'']"

definition ui0 :: "nat ui" where
  "ui0 = init coco5 True 0"

definition frame0 :: image where
  "frame0 = Capture 0 720 1280"

text \<open>A pass in which the detector reports class ids 1, 0, 6 and 3 and no key is pressed.\<close>

definition w0 :: "nat world" where
  "w0 = \<lparr>cap_read = (True, frame0),
         net_detect = Inr ([1, 0, 6, 3], [9 / 10, 8 / 10, 7 / 10, 6 / 10],
                           [(100, 200, 50, 60), (0, 0, 10, 10), (5, 5, 5, 5), (300, 40, 80, 120)]),
         datetime_now = 7, strftime_now = ''12:00:00'', time1 = 1, time2 = 1, waitKey = - 1\<rparr>"

text \<open>Two cats and a dog; a box that starts above the header line; a detector result of zero width.\<close>

definition cat_cat_dog :: "detection list" where
  "cat_cat_dog =
     [\<lparr>box = (100, 200, 50, 60), class_name = ''cat'', confidence = 9 / 10, class_id = 17\<rparr>,
      \<lparr>box = (300, 200, 50, 60), class_name = ''cat'', confidence = 8 / 10, class_id = 17\<rparr>,
      \<lparr>box = (500, 200, 50, 60), class_name = ''dog'', confidence = 7 / 10, class_id = 18\<rparr>]"

definition d_top :: detection where
  "d_top = \<lparr>box = (300, 40, 80, 120), class_name = ''car'', confidence = 6 / 10, class_id = 3\<rparr>"


text \<open>A pass that ends with the key \<open>p\<close>, and the pass after it.\<close>

definition w_pause :: "nat world" where
  "w_pause = w0\<lparr>waitKey := ord CHR ''p''\<rparr>"

definition w_next :: "nat world" where
  "w_next = \<lparr>cap_read = (True, Capture 1 720 1280), net_detect = Inr ([], [], []),
         datetime_now = 9, strftime_now = ''12:00:02'', time1 = 3, time2 = 3, waitKey = - 1\<rparr>"

definition ui1 :: "nat ui" where
  "ui1 = ui0\<lparr>fps_counter := 1, paused := True,
             detection_history := [entry_of 7 (detect_objects ui0 w_pause)]\<rparr>"

definition img1 :: image where
  "img1 = compose lib0 (ui0\<lparr>detection_history := [entry_of 7 (detect_objects ui0 w_pause)]\<rparr>)
            ''12:00:00'' frame0 (detect_objects ui0 w_pause)"

definition five_kinds :: "detection list" where
  "five_kinds =
     map (\<lambda>n. \<lparr>box = (100, 200, 50, 60), class_name = n, confidence = 9 / 10, class_id = 1\<rparr>)
       [''person'', ''car'', ''person'', ''dog'', ''cat'', ''bus'']"






section \<open>Properties\<close>

subsection \<open>The detection history\<close>

lemma update_history_empty: "update_history t [] h = h"
  by (simp add: update_history_def)

lemma update_history_nonempty:
  assumes "ds \<noteq> []" and "length h \<le> 100"
  shows "update_history t ds h = drop (length (h @ [entry_of t ds]) - 100) (h @ [entry_of t ds])"
proof (cases "length h = 100")
  case True
  then have "length (h @ [entry_of t ds]) - 100 = Suc 0" by simp
  moreover have "update_history t ds h = tl (h @ [entry_of t ds])"
    using assms True by (simp add: update_history_def Let_def)
  ultimately show ?thesis by (simp only: drop_Suc drop_0)
next
  case False
  then have "length (h @ [entry_of t ds]) - 100 = 0" using assms by simp
  moreover have "update_history t ds h = h @ [entry_of t ds]"
    using assms False by (simp add: update_history_def Let_def)
  ultimately show ?thesis by simp
qed

lemma update_history_length: "length h \<le> 100 \<Longrightarrow> length (update_history t ds h) \<le> 100"
  by (auto simp add: update_history_def Let_def)

text \<open>Keeping the last 100 of a list that already is the last 100 of a longer one.\<close>

lemma drop_window:
  "drop (length (drop (length h - 100) h @ es) - 100) (drop (length h - 100) h @ es)
     = drop (length (h @ es) - 100) (h @ (es::'a list))"
proof (cases "length h \<le> 100")
  case True
  then show ?thesis by simp
next
  case False
  define k where "k = length h - 100"
  have k: "k \<le> length h" and lenh: "length h = k + 100"
    using False by (simp_all add: k_def)
  have "drop k h @ es = drop k (h @ es)" using k by simp
  moreover have "length (drop k h @ es) - 100 = length es" using lenh by simp
  moreover have "length (h @ es) - 100 = length es + k" using lenh by simp
  ultimately show ?thesis unfolding k_def[symmetric] by (simp only: drop_drop)
qed

text \<open>
  The history after a run of passes, each with its timestamp and detection list: the last
  100 of the old entries followed by one entry for each pass that detected something.
\<close>

lemma record_frames:
  "length h \<le> 100 \<Longrightarrow>
   foldl (\<lambda>h (t, ds). update_history t ds h) h frames =
     (let es = h @ map (\<lambda>(t, ds). entry_of t ds) (filter (\<lambda>(t, ds). ds \<noteq> []) frames)
      in drop (length es - 100) es)"
proof (induction frames arbitrary: h)
  case Nil
  then show ?case by simp
next
  case (Cons f frames)
  obtain t ds where f: "f = (t, ds)" by (cases f)
  show ?case
  proof (cases "ds = []")
    case True
    then show ?thesis using Cons f by (simp add: update_history_empty)
  next
    case False
    let ?es = "map (\<lambda>(t, ds). entry_of t ds) (filter (\<lambda>(t, ds). ds \<noteq> []) frames)"
    let ?h1 = "h @ [entry_of t ds]"
    have len: "length (update_history t ds h) \<le> 100"
      using Cons.prems by (rule update_history_length)
    have "foldl (\<lambda>h (t, ds). update_history t ds h) h (f # frames)
          = foldl (\<lambda>h (t, ds). update_history t ds h) (update_history t ds h) frames"
      by (simp add: f)
    also have "\<dots> = drop (length (update_history t ds h @ ?es) - 100) (update_history t ds h @ ?es)"
      using Cons.IH[OF len] by (simp add: Let_def)
    also have "\<dots> = drop (length (?h1 @ ?es) - 100) (?h1 @ ?es)"
      unfolding update_history_nonempty[OF False Cons.prems] by (rule drop_window)
    finally show ?thesis using False f by (simp add: Let_def)
  qed
qed

text \<open>
  Claim C6. On a history of at most 100 entries (it starts empty): a pass with no detection
  leaves the history as it is; a pass with a detection appends one entry, and drops the
  oldest one when that makes 101; after any run of passes the history has at most 100
  entries and is the last 100, oldest first, of the old entries followed by one entry for
  each pass that detected something. So 101 such passes from the empty history leave
  entries 2 to 101.
\<close>

theorem history_fifo:
  assumes "length h \<le> 100"
  shows "update_history t [] h = h
       \<and> (ds \<noteq> [] \<longrightarrow> update_history t ds h =
             (if length h < 100 then h @ [entry_of t ds] else tl h @ [entry_of t ds]))
       \<and> length (foldl (\<lambda>h (t, ds). update_history t ds h) h frames) \<le> 100
       \<and> foldl (\<lambda>h (t, ds). update_history t ds h) h frames =
           (let es = h @ map (\<lambda>(t, ds). entry_of t ds) (filter (\<lambda>(t, ds). ds \<noteq> []) frames)
            in drop (length es - 100) es)"
proof -
  have "ds \<noteq> [] \<longrightarrow> update_history t ds h =
             (if length h < 100 then h @ [entry_of t ds] else tl h @ [entry_of t ds])"
    using assms by (cases h) (auto simp add: update_history_def Let_def)
  moreover have "length (foldl (\<lambda>h (t, ds). update_history t ds h) h frames) \<le> 100"
    unfolding record_frames[OF assms] by (simp add: Let_def)
  moreover note record_frames[OF assms, of frames] update_history_empty[of t h]
  ultimately show ?thesis by (intro conjI)
qed

text \<open>
  101 passes with one detection each, stamped 0 to 100, from the empty history: 100 entries
  remain, the one stamped 0 is gone and the one stamped 100 is there.
\<close>

theorem history_fifo_witness:
  "length ([] :: nat history_entry list) \<le> 100
   \<and> update_history 5 [] [] = ([] :: nat history_entry list)
   \<and> [d0] \<noteq> [] \<and> update_history 5 [d0] [] = [entry_of (5::nat) [d0]]
   \<and> (let h = foldl (\<lambda>h (t, ds). update_history t ds h) [] (map (\<lambda>t. (t, [d0])) [0..<101])
      in length h = 100 \<and> entry_of 0 [d0] \<notin> set h \<and> entry_of 100 [d0] \<in> set h
         \<and> h = map (\<lambda>t. entry_of t [d0]) [1..<101])"
proof -
  have flt: "filter (\<lambda>(t, ds). ds \<noteq> []) (map (\<lambda>t. (t, [d0])) [0..<101])
             = map (\<lambda>t. (t::nat, [d0])) [0..<101]"
    by (simp add: filter_map o_def)
  have "foldl (\<lambda>h (t, ds). update_history t ds h) [] (map (\<lambda>t. (t, [d0])) [0..<101])
        = drop 1 (map (\<lambda>t. entry_of t [d0]) [0..<101])"
    using history_fifo[of "[]" 5 "[d0]" "map (\<lambda>t. (t, [d0])) [0..<101]"]
    by (simp add: flt Let_def o_def)
  also have "\<dots> = map (\<lambda>t. entry_of t [d0]) [1..<101]"
    by (simp add: drop_map)
  finally have run: "foldl (\<lambda>h (t, ds). update_history t ds h) [] (map (\<lambda>t. (t, [d0])) [0..<101])
        = map (\<lambda>t. entry_of t [d0]) [1..<101]" .
  have one: "update_history 5 [] [] = ([] :: nat history_entry list)"
    "update_history 5 [d0] [] = [entry_of (5::nat) [d0]]"
    using history_fifo[of "[]" 5 "[d0]" "map (\<lambda>t. (t, [d0])) [0..<101]"]
    by simp_all
  show ?thesis
    unfolding run using one by (auto simp add: Let_def entry_of_def)
qed

subsection \<open>From detector results to detections\<close>

lemma build_detections_acc:
  "build_detections names ts acc =
     acc @ map (\<lambda>(c, conf, b). \<lparr>box = b, class_name = names ! nat (c - 1),
                                 confidence = conf, class_id = c\<rparr>)
             (filter (\<lambda>(c, conf, b). 0 \<le> c - 1 \<and> c - 1 < int (length names)) ts)"
  by (induction names ts acc rule: build_detections.induct) simp_all

text \<open>
  Claim C10. When the model is loaded, the loop is not paused and the detector returns,
  the detections of the pass are exactly the detector's triples whose \<open>class_id - 1\<close>
  indexes the class-name list, in the detector's order, each named by that index; the other
  triples leave no trace, and nothing is raised (the result is a plain list).
\<close>

theorem class_id_filter:
  assumes "model_loaded self" and "\<not> paused self"
    and "net_detect w = Inr (classIds, confs, bbox)"
  shows "detect_objects self w =
     map (\<lambda>(c, conf, b). \<lparr>box = b, class_name = classNames self ! nat (c - 1),
                           confidence = conf, class_id = c\<rparr>)
       (filter (\<lambda>(c, conf, b). 0 \<le> c - 1 \<and> c - 1 < int (length (classNames self)))
          (zip classIds (zip confs bbox)))"
  using assms by (simp add: detect_objects_def build_detections_acc)

text \<open>Of the class ids 1, 0, 6 and 3 against five class names, 1 and 3 are kept.\<close>

theorem class_id_filter_witness:
  "model_loaded ui0 \<and> \<not> paused ui0
   \<and> net_detect w0 = Inr ([1, 0, 6, 3], [9 / 10, 8 / 10, 7 / 10, 6 / 10],
                           [(100, 200, 50, 60), (0, 0, 10, 10), (5, 5, 5, 5), (300, 40, 80, 120)])
   \<and> detect_objects ui0 w0 =
       [\<lparr>box = (100, 200, 50, 60), class_name = ''person'', confidence = 9 / 10, class_id = 1\<rparr>,
        \<lparr>box = (300, 40, 80, 120), class_name = ''car'', confidence = 6 / 10, class_id = 3\<rparr>]"
proof -
  have a: "model_loaded ui0" and b: "\<not> paused ui0"
    by (simp_all add: ui0_def init_def)
  have c: "net_detect w0 = Inr ([1, 0, 6, 3], [9 / 10, 8 / 10, 7 / 10, 6 / 10],
                           [(100, 200, 50, 60), (0, 0, 10, 10), (5, 5, 5, 5), (300, 40, 80, 120)])"
    by (simp add: w0_def)
  have d: "classNames ui0 = coco5" by (simp add: ui0_def init_def)
  show ?thesis
    using class_id_filter[OF a b c] a b c by (simp add: d coco5_def)
qed

subsection \<open>The footer\<close>

lemma detected_objects_map: "detected_objects ds = map class_name ds"
  by (induction ds) simp_all

text \<open>
  Claim C1, as stated, fails: Python enumerates the set of names in an order of its own.
  With a set order that happens to put \<open>dog\<close> first, the detections cat, cat, dog are listed
  as \<open>dog, cat\<close>, while the order of first appearance is cat, dog.
\<close>

theorem footer_order_counterexample:
  "last_text (draw_footer_stats lib0 ui0 ''12:00:00'' frame0 cat_cat_dog) = Some ''Detected: dog, cat''
   \<and> enumerates (list_of_set lib0 (detected_objects cat_cat_dog)) (detected_objects cat_cat_dog)
   \<and> first_seen (detected_objects cat_cat_dog) = [''cat'', ''dog'']"
  by (simp add: draw_footer_stats_def ui0_def init_def frame0_def cat_cat_dog_def objects_text_def
      lib0_def reversed_first_seen_def enumerates_def Let_def insert_commute)

text \<open>
  Claim C1, amended. With statistics on and at least one detection, the footer's last text
  is \<open>Detected: \<close> followed by the first 4 names of Python's enumeration of the set of class
  names, joined by a comma and a space, followed by \<open>...\<close> exactly when there are more
  than 4 distinct names. The enumeration has each distinct name once; its order is the
  set's, not the input's.
\<close>

theorem footer_lists_each_name_once:
  assumes "show_stats self" and "detections \<noteq> []"
    and "enumerates (list_of_set lib (map class_name detections)) (map class_name detections)"
  shows "last_text (draw_footer_stats lib self now img detections) =
           Some (''Detected: '' @ join '', '' (take 4 (list_of_set lib (map class_name detections)))
                 @ (if 4 < card (set (map class_name detections)) then ''...'' else ''''))"
proof -
  have "length (list_of_set lib (map class_name detections)) = card (set (map class_name detections))"
    using assms(3) by (metis enumerates_def distinct_card)
  then show ?thesis
    using assms(1,2)
    by (simp add: draw_footer_stats_def detected_objects_map objects_text_def Let_def split_def)
qed

text \<open>Six detections of five kinds: four names and the ellipsis.\<close>

theorem footer_lists_each_name_once_witness:
  "show_stats ui0 \<and> five_kinds \<noteq> []
   \<and> enumerates (list_of_set lib0 (map class_name five_kinds)) (map class_name five_kinds)
   \<and> last_text (draw_footer_stats lib0 ui0 ''12:00:00'' frame0 five_kinds)
       = Some ''Detected: bus, cat, dog, car...''"
proof -
  have a: "show_stats ui0" by (simp add: ui0_def init_def)
  have b: "five_kinds \<noteq> []" by (simp add: five_kinds_def)
  have n: "map class_name five_kinds = [''person'', ''car'', ''person'', ''dog'', ''cat'', ''bus'']"
    by (simp add: five_kinds_def)
  have l: "list_of_set lib0 (map class_name five_kinds) = [''bus'', ''cat'', ''dog'', ''car'', ''person'']"
    by (simp add: n lib0_def reversed_first_seen_def)
  have c: "enumerates (list_of_set lib0 (map class_name five_kinds)) (map class_name five_kinds)"
    unfolding l unfolding n by (auto simp add: enumerates_def)
  have "card (set (map class_name five_kinds)) = length (list_of_set lib0 (map class_name five_kinds))"
    using c by (metis enumerates_def distinct_card)
  then have d: "card (set (map class_name five_kinds)) = 5"
    by (simp add: l)
  show ?thesis
    using footer_lists_each_name_once[OF a b c, of "''12:00:00''" frame0] a b c d
    by (simp add: l)
qed

subsection \<open>The compositor and the clock\<close>

text \<open>
  Claim C2, as stated, fails: with statistics on, the footer carries the wall-clock time,
  so the same frame, detections and session state composed at two different seconds give
  two different sequences of drawing calls.
\<close>

theorem clock_counterexample:
  "compose lib0 ui0 ''12:00:00'' frame0 [] \<noteq> compose lib0 ui0 ''12:00:01'' frame0 []"
  by (simp add: compose_def draw_footer_stats_def draw_enhanced_bounding_boxes_def ui0_def init_def
      Let_def split_def)

text \<open>
  Claim C2, amended. For a fixed frame, detection list and session state (and a fixed
  process, hence a fixed set order), two compositions make the same drawing calls exactly
  when statistics are off or the two clock texts agree: the output depends on nothing else.
\<close>

theorem compose_clock:
  "compose lib self now1 img detections = compose lib self now2 img detections
     \<longleftrightarrow> \<not> show_stats self \<or> now1 = now2"
  by (auto simp add: compose_def draw_footer_stats_def Let_def split_def)

theorem compose_clock_witness:
  "\<not> show_stats (ui0\<lparr>show_stats := False\<rparr>)
   \<and> compose lib0 (ui0\<lparr>show_stats := False\<rparr>) ''12:00:00'' frame0 cat_cat_dog
     = compose lib0 (ui0\<lparr>show_stats := False\<rparr>) ''12:00:01'' frame0 cat_cat_dog"
  using compose_clock[of lib0 "ui0\<lparr>show_stats := False\<rparr>" "''12:00:00''" frame0 cat_cat_dog "''12:00:01''"]
  by simp

subsection \<open>The label of a box and the header\<close>

text \<open>
  Claim C3 fails on the code. Line 156 clamps \<open>label_y\<close>, which lines 160 and 161 use as
  the bottom edge of the label background; the top edge is \<open>label_y - label_bg_height\<close>.
  For a box whose top edge \<open>y\<close> is at most 90 and a text of non-negative height, the
  background spans from at most 75 down to 90: its top edge is above the line of 90 pixels,
  and inside the header band, which ends at 80.
\<close>

theorem label_background_above_line:
  assumes "box d = (x, y, w, h)" and "y \<le> 90"
    and "0 \<le> snd (getTextSize lib (upper lib (class_name d)) font_scale thickness)"
  shows "\<exists>top right. last_filled_rectangle (draw_box lib img i d) = Some ((x, top), (right, 90))
           \<and> top \<le> 75"
  using assms
  by (auto simp add: draw_box_def Let_def split_def max_def)

text \<open>A box at \<open>y = 40\<close>: the label background runs from 58 to 90.\<close>

theorem label_background_above_line_witness:
  "box d_top = (300, 40, 80, 120) \<and> (40::int) \<le> 90
   \<and> 0 \<le> snd (getTextSize lib0 (upper lib0 (class_name d_top)) font_scale thickness)
   \<and> last_filled_rectangle (draw_box lib0 frame0 0 d_top) = Some ((300, 58), (365, 90))"
proof -
  have a: "box d_top = (300, 40, 80, 120)" by (simp add: d_top_def)
  have b: "(40::int) \<le> 90" by simp
  have c: "0 \<le> snd (getTextSize lib0 (upper lib0 (class_name d_top)) font_scale thickness)"
    by code_simp
  have "last_filled_rectangle (draw_box lib0 frame0 0 d_top) = Some ((300, 58), (365, 90))"
    by code_simp
  with label_background_above_line[OF a b c, of frame0 0] a b c show ?thesis by simp
qed

subsection \<open>The frame of a paused pass\<close>

lemma paused_pass:
  assumes "paused self"
  shows "iteration lib w (self, Some img) =
     (case calculate_fps (time1 w) (time2 w) self of
        Inl e \<Rightarrow> Raise e
      | Inr self' \<Rightarrow>
          (case handle_key (waitKey w) self' of
             None \<Rightarrow> Break self'
           | Some self'' \<Rightarrow> Continue self'' (compose lib self (strftime_now w) img [])))"
  using assms
  by (simp add: iteration_def detect_objects_def update_history_def split_def Let_def)

lemma running_pass:
  assumes "\<not> paused self" and "iteration lib w (self, img) = Continue self' img'"
  shows "img' = compose lib (self\<lparr>detection_history :=
               update_history (datetime_now w) (detect_objects self w) (detection_history self)\<rparr>)
               (strftime_now w) (snd (cap_read w)) (detect_objects self w)"
  using assms
  by (auto simp add: iteration_def split_def Let_def split: if_splits sum.splits option.splits)

text \<open>Every pass of the compositor adds drawing calls.\<close>

lemma draw_header_size: "size img < size (draw_header lib self img)"
  by (simp add: draw_header_def Let_def split_def)

lemma draw_box_size: "size img < size (draw_box lib img i d)"
  by (simp add: draw_box_def Let_def split_def)

lemma draw_boxes_from_size: "size img \<le> size (draw_boxes_from lib i img ds)"
proof (induction ds arbitrary: i img)
  case Nil
  then show ?case by simp
next
  case (Cons d ds)
  have "size img < size (draw_box lib img i d)" by (rule draw_box_size)
  also have "\<dots> \<le> size (draw_boxes_from lib (Suc i) (draw_box lib img i d) ds)" by (rule Cons.IH)
  finally show ?case by simp
qed

lemma draw_footer_size: "size img \<le> size (draw_footer_stats lib self now img ds)"
  by (simp add: draw_footer_stats_def Let_def split_def)

lemma compose_size: "size img < size (compose lib self now img ds)"
proof -
  have "size img < size (draw_header lib self img)" by (rule draw_header_size)
  also have "\<dots> \<le> size (draw_enhanced_bounding_boxes lib (draw_header lib self img) ds)"
    by (simp add: draw_enhanced_bounding_boxes_def draw_boxes_from_size)
  also have "\<dots> \<le> size (draw_footer_stats lib self now
                            (draw_enhanced_bounding_boxes lib (draw_header lib self img) ds) ds)"
    by (rule draw_footer_size)
  finally show ?thesis
    by (simp add: compose_def Let_def split_def)
qed

text \<open>
  Claim C9 fails on the code. Lines 229 to 231 assign the annotated image to the same local
  variable \<open>img\<close> that line 194 fills from the camera, and a paused pass does not refill
  it. So when a pass that read a frame is followed by a paused pass, the paused pass
  composes over the image the first pass displayed, which is the composition over the
  camera frame and not the camera frame itself.
\<close>

theorem paused_pass_draws_on_annotated_frame:
  assumes "\<not> paused self" and "iteration lib w1 (self, img) = Continue self1 img1"
    and "paused self1" and "iteration lib w2 (self1, Some img1) = Continue self2 img2"
  shows "img2 = compose lib self1 (strftime_now w2) img1 []
       \<and> img1 = compose lib (self\<lparr>detection_history :=
               update_history (datetime_now w1) (detect_objects self w1) (detection_history self)\<rparr>)
               (strftime_now w1) (snd (cap_read w1)) (detect_objects self w1)
       \<and> img1 \<noteq> snd (cap_read w1)"
proof -
  have 1: "img2 = compose lib self1 (strftime_now w2) img1 []"
    using assms(4) unfolding paused_pass[OF assms(3)]
    by (auto split: sum.splits option.splits)
  have 2: "img1 = compose lib (self\<lparr>detection_history :=
               update_history (datetime_now w1) (detect_objects self w1) (detection_history self)\<rparr>)
               (strftime_now w1) (snd (cap_read w1)) (detect_objects self w1)"
    using assms(1,2) by (rule running_pass)
  have 3: "img1 \<noteq> snd (cap_read w1)"
    using compose_size[of "snd (cap_read w1)"] unfolding 2[symmetric] by (metis 2 less_irrefl)
  from 1 2 3 show ?thesis by simp
qed

text \<open>
  The first pass reads \<open>frame0\<close> and ends with the key \<open>p\<close>; the next pass is paused and
  composes over \<open>img1\<close>, the annotated image of the first.
\<close>

theorem paused_pass_draws_on_annotated_frame_witness:
  "\<not> paused ui0 \<and> iteration lib0 w_pause (ui0, None) = Continue ui1 img1
   \<and> paused ui1
   \<and> iteration lib0 w_next (ui1, Some img1)
       = Continue (ui1\<lparr>fps_counter := 2\<rparr>) (compose lib0 ui1 ''12:00:02'' img1 [])
   \<and> img1 \<noteq> frame0"
proof -
  have a: "\<not> paused ui0" by (simp add: ui0_def init_def)
  have b: "iteration lib0 w_pause (ui0, None) = Continue ui1 img1" by code_simp
  have c: "paused ui1" by (simp add: ui1_def)
  have d: "iteration lib0 w_next (ui1, Some img1)
       = Continue (ui1\<lparr>fps_counter := 2\<rparr>) (compose lib0 ui1 ''12:00:02'' img1 [])"
    by code_simp
  have e: "strftime_now w_next = ''12:00:02''" "snd (cap_read w_pause) = frame0"
    by (simp_all add: w_next_def w_pause_def w0_def)
  from paused_pass_draws_on_annotated_frame[OF a b c d] a b c d e show ?thesis by simp
qed

subsection \<open>Rounding\<close>

text \<open>Rounding to an integer moves by at most a half; rounding a positive number below 2 to binary64 by at most \<open>2^-53\<close>.\<close>

lemma round_half_even_err: "\<bar>of_int (round_half_even x) - x\<bar> \<le> 1 / 2"
proof -
  have "of_int \<lfloor>x\<rfloor> \<le> x" and "x < of_int \<lfloor>x\<rfloor> + 1"
    by linarith+
  then show ?thesis
    by (auto simp add: round_half_even_def Let_def abs_le_iff)
qed

lemma pow2_pos: "0 < pow2 e"
  by (simp add: pow2_def)

lemma pow2_mono: "e \<le> e' \<Longrightarrow> pow2 e \<le> pow2 e'"
proof -
  assume le: "e \<le> e'"
  have eq: "pow2 k = 2 powi k" for k
    by (simp add: pow2_def power_int_def field_simps)
  show ?thesis unfolding eq using le by (simp add: power_int_increasing)
qed

lemma binade_le_0: "q < 2 \<Longrightarrow> binade q \<le> 0"
proof (cases "1 \<le> q")
  case True
  assume "q < 2"
  with True have "\<lfloor>q\<rfloor> = 1" by linarith
  then show ?thesis using True by (simp add: binade_def compute_floorlog)
next
  case False
  then show ?thesis by (simp add: binade_def)
qed

lemma fl_err:
  assumes "0 < q" and "q < 2"
  shows "\<bar>fl q - q\<bar> \<le> 1 / 2 ^ 53"
proof -
  define u where "u = pow2 (binade q - 52)"
  have u: "0 < u" by (simp add: u_def pow2_pos)
  have "u \<le> pow2 (- 52)"
    unfolding u_def using binade_le_0[OF assms(2)] by (intro pow2_mono) simp
  then have u52: "u \<le> 1 / 2 ^ 52" by (simp add: pow2_def)
  have flq: "fl q = of_int (round_half_even (q / u)) * u"
    using assms(1) by (simp add: fl_def u_def Let_def)
  have "fl q - q = (of_int (round_half_even (q / u)) - q / u) * u"
    using u by (simp add: flq left_diff_distrib)
  then have "\<bar>fl q - q\<bar> = \<bar>of_int (round_half_even (q / u)) - q / u\<bar> * u"
    using u by (simp add: abs_mult)
  also have "\<dots> \<le> 1 / 2 * u"
    using round_half_even_err[of "q / u"] u by (intro mult_right_mono) simp_all
  also have "\<dots> \<le> 1 / 2 * (1 / 2 ^ 52)"
    using u52 by simp
  finally show ?thesis by simp
qed

text \<open>\<open>binade\<close> finds the exponent, so \<open>fl\<close> can be computed from bounds on its argument.\<close>

lemma pow2_nonneg_eq: "0 \<le> e \<Longrightarrow> pow2 e = 2 ^ nat e"
  by (simp add: pow2_def)

lemma pow2_neg_eq: "e < 0 \<Longrightarrow> pow2 e = 1 / 2 ^ nat (- e)"
  by (simp add: pow2_def)

lemma binade_ge_1:
  assumes "0 \<le> e" and "pow2 e \<le> q" and "q < pow2 (e + 1)"
  shows "binade q = e"
proof -
  have lo: "(2::rat) ^ nat e \<le> q" using assms by (simp add: pow2_nonneg_eq)
  have hi: "q < 2 ^ nat (e + 1)" using assms by (simp add: pow2_nonneg_eq)
  have one: "1 \<le> q" using lo one_le_power[of "2::rat" "nat e"] by linarith
  have "of_int (2 ^ nat e) \<le> q" using lo by simp
  then have flo: "2 ^ nat e \<le> \<lfloor>q\<rfloor>" by (simp only: le_floor_iff)
  have "q < of_int (2 ^ nat (e + 1))" using hi by simp
  then have fhi: "\<lfloor>q\<rfloor> < 2 ^ nat (e + 1)" by (simp only: floor_less_iff)
  have "0 \<le> \<lfloor>q\<rfloor>" using one by simp
  then have i: "int (nat \<lfloor>q\<rfloor>) = \<lfloor>q\<rfloor>" by simp
  have "int (2 ^ nat e) \<le> int (nat \<lfloor>q\<rfloor>)" unfolding i using flo by simp
  then have nlo: "2 ^ nat e \<le> nat \<lfloor>q\<rfloor>" by (simp only: of_nat_le_iff)
  have "int (nat \<lfloor>q\<rfloor>) < int (2 ^ nat (e + 1))" unfolding i using fhi by simp
  then have nhi: "nat \<lfloor>q\<rfloor> < 2 ^ nat (e + 1)" by (simp only: of_nat_less_iff)
  have "floorlog 2 (nat \<lfloor>q\<rfloor>) \<le> nat (e + 1)"
    using nhi by (intro floorlog_leI) simp_all
  moreover have "nat (e + 1) \<le> floorlog 2 (nat \<lfloor>q\<rfloor>)"
    using nlo assms(1) by (intro floorlog_geI) (simp_all add: nat_add_distrib)
  ultimately have "floorlog 2 (nat \<lfloor>q\<rfloor>) = nat (e + 1)" by simp
  then show ?thesis using one assms(1) by (simp add: binade_def)
qed


lemma binade_lt_1:
  assumes "e < 0" and "pow2 e \<le> q" and "q < pow2 (e + 1)"
  shows "binade q = e"
proof -
  define k where "k = nat (- e)"
  have k: "0 < k" and e: "e = - int k" using assms(1) by (simp_all add: k_def)
  have p1: "pow2 e = 1 / 2 ^ k" using assms(1) by (simp add: pow2_neg_eq k_def)
  have p2: "pow2 (e + 1) = 1 / 2 ^ (k - 1)"
  proof (cases "e = - 1")
    case True
    then show ?thesis by (simp add: pow2_def k_def)
  next
    case False
    then have "e + 1 < 0" using assms(1) by simp
    moreover have "nat (- (e + 1)) = k - 1" using assms(1) by (simp add: k_def)
    ultimately show ?thesis by (simp add: pow2_neg_eq)
  qed
  have lo: "1 / 2 ^ k \<le> q" and hi: "q < 1 / 2 ^ (k - 1)"
    using assms(2,3) by (simp_all add: p1 p2)
  have "(0::rat) < 1 / 2 ^ k" by simp
  then have qpos: "0 < q" using lo by linarith
  have "1 / 2 ^ (k - 1) \<le> (1::rat)" by simp
  then have q1: "q < 1" using hi by linarith
  have up: "1 / q \<le> 2 ^ k"
    using lo qpos by (simp add: field_simps)
  have dn: "2 ^ (k - 1) < 1 / q"
    using hi qpos by (simp add: field_simps)
  have "1 / q \<le> of_int (2 ^ k)" using up by simp
  then have cup: "\<lceil>1 / q\<rceil> \<le> 2 ^ k" by (simp only: ceiling_le_iff)
  have "of_int (2 ^ (k - 1)) < 1 / q" using dn by simp
  then have cdn: "2 ^ (k - 1) < \<lceil>1 / q\<rceil>" by (simp only: less_ceiling_iff)
  define n where "n = nat \<lceil>1 / q\<rceil> - 1"
  have "(1::int) \<le> 2 ^ (k - 1)" by simp
  with cdn have "1 \<le> \<lceil>1 / q\<rceil>" by linarith
  then have "int n = \<lceil>1 / q\<rceil> - 1" unfolding n_def by linarith
  with cup cdn have "int (2 ^ (k - 1)) \<le> int n" and "int n < int (2 ^ k)" by simp_all
  then have nlo: "2 ^ (k - 1) \<le> n" and nhi: "n < 2 ^ k" by (simp_all only: of_nat_le_iff of_nat_less_iff)
  have "floorlog 2 n \<le> k" using nhi by (intro floorlog_leI) simp_all
  moreover have "k \<le> floorlog 2 n" using nlo by (intro floorlog_geI) simp_all
  ultimately have "floorlog 2 n = k" by simp
  then show ?thesis using q1 by (simp add: binade_def n_def e)
qed

lemma binade_eq:
  assumes "pow2 e \<le> q" and "q < pow2 (e + 1)"
  shows "binade q = e"
  using assms binade_ge_1 binade_lt_1 by (cases "0 \<le> e") simp_all

lemma fl_in_binade:
  assumes "pow2 e \<le> q" and "q < pow2 (e + 1)"
  shows "fl q = of_int (round_half_even (q / pow2 (e - 52))) * pow2 (e - 52)"
proof -
  have "0 < pow2 e" by (simp add: pow2_def)
  then have "0 < q" using assms(1) by linarith
  then show ?thesis
    by (simp add: fl_def Let_def binade_eq[OF assms])
qed

lemma floor_rat_numeral: "\<lfloor>(numeral a / numeral b :: rat)\<rfloor> = numeral a div numeral b"
  using floor_divide_of_int_eq[of "numeral a" "numeral b", where 'a = rat] by simp


text \<open>The literals as rationals: \<open>0.05\<close> and \<open>0.1\<close> are not exactly a twentieth and a tenth.\<close>

lemma lit_0_05: "lit_0_05 = 3602879701896397 / 72057594037927936"
proof -
  have "fl (1 / 20) = of_int (round_half_even ((1 / 20) / pow2 ((-5) - 52))) * pow2 ((-5) - 52)"
    by (rule fl_in_binade) (simp_all add: pow2_def)
  also have "\<dots> = 3602879701896397 / 72057594037927936"
    by (simp add: pow2_def round_half_even_def Let_def floor_rat_numeral)
  finally show ?thesis by (simp add: lit_0_05_def)
qed

lemma lit_0_1: "lit_0_1 = 3602879701896397 / 36028797018963968"
proof -
  have "fl (1 / 10) = of_int (round_half_even ((1 / 10) / pow2 ((-4) - 52))) * pow2 ((-4) - 52)"
    by (rule fl_in_binade) (simp_all add: pow2_def)
  also have "\<dots> = 3602879701896397 / 36028797018963968"
    by (simp add: pow2_def round_half_even_def Let_def floor_rat_numeral)
  finally show ?thesis by (simp add: lit_0_1_def)
qed

lemma lit_1_0: "lit_1_0 = 1"
proof -
  have "fl 1 = of_int (round_half_even (1 / pow2 (0 - 52))) * pow2 (0 - 52)"
    by (rule fl_in_binade) (simp_all add: pow2_def)
  also have "\<dots> = 1"
    by (simp add: pow2_def round_half_even_def Let_def floor_rat_numeral)
  finally show ?thesis by (simp add: lit_1_0_def)
qed

lemma lit_0_5: "lit_0_5 = 1 / 2"
proof -
  have "fl (1 / 2) = of_int (round_half_even ((1 / 2) / pow2 ((-1) - 52))) * pow2 ((-1) - 52)"
    by (rule fl_in_binade) (simp_all add: pow2_def)
  also have "\<dots> = 1 / 2"
    by (simp add: pow2_def round_half_even_def Let_def floor_rat_numeral)
  finally show ?thesis by (simp add: lit_0_5_def)
qed

lemma fl_30: "fl 30 = 30"
proof -
  have "fl 30 = of_int (round_half_even (30 / pow2 (4 - 52))) * pow2 (4 - 52)"
    by (rule fl_in_binade) (simp_all add: pow2_def)
  also have "\<dots> = 30"
    by (simp add: pow2_def round_half_even_def Let_def floor_rat_numeral)
  finally show ?thesis .
qed

lemma fl_20: "fl 20 = 20"
proof -
  have "fl 20 = of_int (round_half_even (20 / pow2 (4 - 52))) * pow2 (4 - 52)"
    by (rule fl_in_binade) (simp_all add: pow2_def)
  also have "\<dots> = 20"
    by (simp add: pow2_def round_half_even_def Let_def floor_rat_numeral)
  finally show ?thesis .
qed

lemma fl_3_2: "fl (3 / 2) = 3 / 2"
proof -
  have "fl (3 / 2) = of_int (round_half_even ((3 / 2) / pow2 (0 - 52))) * pow2 (0 - 52)"
    by (rule fl_in_binade) (simp_all add: pow2_def)
  also have "\<dots> = 3 / 2"
    by (simp add: pow2_def round_half_even_def Let_def floor_rat_numeral)
  finally show ?thesis .
qed

text \<open>Adding or subtracting the literal \<open>0.05\<close> moves a threshold by a twentieth up to \<open>2^-52\<close>.\<close>

lemma fadd_step:
  assumes "lit_0_1 \<le> t" and "t \<le> 1"
  shows "\<bar>fadd t lit_0_05 - (t + 1 / 20)\<bar> \<le> 1 / 2 ^ 52"
proof -
  have "0 < t + lit_0_05" "t + lit_0_05 < 2"
    using assms by (simp_all add: lit_0_05 lit_0_1)
  then have 1: "\<bar>fl (t + lit_0_05) - (t + lit_0_05)\<bar> \<le> 1 / 2 ^ 53" by (rule fl_err)
  have 2: "\<bar>lit_0_05 - 1 / 20\<bar> \<le> 1 / 2 ^ 53" by (simp add: lit_0_05)
  have "fadd t lit_0_05 - (t + 1 / 20) = (fl (t + lit_0_05) - (t + lit_0_05)) + (lit_0_05 - 1 / 20)"
    by (simp add: fadd_def)
  also have "\<bar>\<dots>\<bar> \<le> \<bar>fl (t + lit_0_05) - (t + lit_0_05)\<bar> + \<bar>lit_0_05 - 1 / 20\<bar>"
    by (rule abs_triangle_ineq)
  also have "\<dots> \<le> 1 / 2 ^ 53 + 1 / 2 ^ 53"
    using 1 2 by (rule add_mono)
  also have "\<dots> = 1 / 2 ^ 52" by simp
  finally show ?thesis .
qed

lemma fsub_step:
  assumes "lit_0_1 \<le> t" and "t \<le> 1"
  shows "\<bar>fsub t lit_0_05 - (t - 1 / 20)\<bar> \<le> 1 / 2 ^ 52"
proof -
  have "0 < t - lit_0_05" "t - lit_0_05 < 2"
    using assms by (simp_all add: lit_0_05 lit_0_1)
  then have 1: "\<bar>fl (t - lit_0_05) - (t - lit_0_05)\<bar> \<le> 1 / 2 ^ 53" by (rule fl_err)
  have 2: "\<bar>1 / 20 - lit_0_05\<bar> \<le> 1 / 2 ^ 53" by (simp add: lit_0_05)
  have "fsub t lit_0_05 - (t - 1 / 20) = (fl (t - lit_0_05) - (t - lit_0_05)) + (1 / 20 - lit_0_05)"
    by (simp add: fsub_def)
  also have "\<bar>\<dots>\<bar> \<le> \<bar>fl (t - lit_0_05) - (t - lit_0_05)\<bar> + \<bar>1 / 20 - lit_0_05\<bar>"
    by (rule abs_triangle_ineq)
  also have "\<dots> \<le> 1 / 2 ^ 53 + 1 / 2 ^ 53"
    using 1 2 by (rule add_mono)
  also have "\<dots> = 1 / 2 ^ 52" by simp
  finally show ?thesis .
qed

subsection \<open>The frame-rate counter\<close>

lemma calculate_fps_below:
  "fps_counter self < 29 \<Longrightarrow> calculate_fps t1 t2 self = Inr (self\<lparr>fps_counter := fps_counter self + 1\<rparr>)"
  by (simp add: calculate_fps_def Let_def)

lemma calculate_fps_window:
  "fps_counter self = 29 \<Longrightarrow> fsub t1 (fps_start_time self) \<noteq> 0 \<Longrightarrow>
   calculate_fps t1 t2 self =
     Inr (self\<lparr>current_fps := fl (30 / fsub t1 (fps_start_time self)),
               fps_counter := 0, fps_start_time := t2\<rparr>)"
  by (simp add: calculate_fps_def Let_def fdiv_def fl_30)

lemma calculate_fps_zero:
  "fps_counter self = 29 \<Longrightarrow> fsub t1 (fps_start_time self) = 0 \<Longrightarrow>
   calculate_fps t1 t2 self = Inl ZeroDivisionError"
  by (simp add: calculate_fps_def Let_def fdiv_def fl_30)

lemma fps_calls_below:
  "fps_counter self + int (length ts) < 30 \<Longrightarrow>
   fps_calls ts self = Inr (self\<lparr>fps_counter := fps_counter self + int (length ts)\<rparr>)"
proof (induction ts arbitrary: self)
  case Nil
  then show ?case by simp
next
  case (Cons t ts)
  obtain t1 t2 where t: "t = (t1, t2)" by (cases t)
  have "fps_counter self < 29" using Cons.prems by simp
  then have 1: "calculate_fps t1 t2 self = Inr (self\<lparr>fps_counter := fps_counter self + 1\<rparr>)"
    by (rule calculate_fps_below)
  have "fps_calls ts (self\<lparr>fps_counter := fps_counter self + 1\<rparr>)
        = Inr (self\<lparr>fps_counter := fps_counter self + 1 + int (length ts)\<rparr>)"
    using Cons.IH[of "self\<lparr>fps_counter := fps_counter self + 1\<rparr>"] Cons.prems by simp
  then show ?case by (simp add: t 1 add.assoc)
qed

lemma fps_calls_append:
  "fps_calls (ts @ us) self = (case fps_calls ts self of Inl e \<Rightarrow> Inl e | Inr self' \<Rightarrow> fps_calls us self')"
  by (induction ts self rule: fps_calls.induct) (simp_all split: sum.splits)

text \<open>
  Claim C7. With the counter in \<open>[0, 30)\<close> (it starts at 0): a call with the counter below 29
  adds one to it and changes nothing else; the call that brings it to 30 publishes the
  quotient of 30 by the elapsed time \<open>t1 - fps_start_time\<close> (both in binary64 arithmetic),
  sets the counter to 0 and the window start to the clock; after every call that returns,
  the counter is again in \<open>[0, 30)\<close>. So fewer than 30 calls since the last reset leave the
  published value as it was, and exactly 30 calls publish 30 divided by the time from the
  window start to the last call. When that elapsed time is zero the division raises
  \<open>ZeroDivisionError\<close>; the claim says nothing about that case.
\<close>

theorem fps_window:
  assumes "0 \<le> fps_counter self" and "fps_counter self < 30"
  shows "(fps_counter self < 29 \<longrightarrow>
            calculate_fps t1 t2 self = Inr (self\<lparr>fps_counter := fps_counter self + 1\<rparr>))
       \<and> (fps_counter self = 29 \<and> fsub t1 (fps_start_time self) \<noteq> 0 \<longrightarrow>
            calculate_fps t1 t2 self =
              Inr (self\<lparr>current_fps := fl (30 / fsub t1 (fps_start_time self)),
                        fps_counter := 0, fps_start_time := t2\<rparr>))
       \<and> (\<forall>self'. calculate_fps t1 t2 self = Inr self' \<longrightarrow>
            0 \<le> fps_counter self' \<and> fps_counter self' < 30)
       \<and> (fps_counter self + int (length ts) < 30 \<longrightarrow>
            fps_calls ts self = Inr (self\<lparr>fps_counter := fps_counter self + int (length ts)\<rparr>))
       \<and> (fps_counter self = 0 \<and> length ts = 29 \<and> fsub t1 (fps_start_time self) \<noteq> 0 \<longrightarrow>
            fps_calls (ts @ [(t1, t2)]) self =
              Inr (self\<lparr>current_fps := fl (30 / fsub t1 (fps_start_time self)),
                        fps_counter := 0, fps_start_time := t2\<rparr>))"
proof -
  have inv: "\<forall>self'. calculate_fps t1 t2 self = Inr self' \<longrightarrow>
            0 \<le> fps_counter self' \<and> fps_counter self' < 30"
    using assms by (auto simp add: calculate_fps_def Let_def split: if_splits sum.splits)
  have full: "fps_calls (ts @ [(t1, t2)]) self =
              Inr (self\<lparr>current_fps := fl (30 / fsub t1 (fps_start_time self)),
                        fps_counter := 0, fps_start_time := t2\<rparr>)"
    if c: "fps_counter self = 0" and l: "length ts = 29" and d: "fsub t1 (fps_start_time self) \<noteq> 0"
  proof -
    have "fps_calls ts self = Inr (self\<lparr>fps_counter := 29\<rparr>)"
      using fps_calls_below[of self ts] c l by simp
    moreover have "calculate_fps t1 t2 (self\<lparr>fps_counter := 29\<rparr>) =
        Inr (self\<lparr>current_fps := fl (30 / fsub t1 (fps_start_time self)),
                  fps_counter := 0, fps_start_time := t2\<rparr>)"
      using calculate_fps_window[of "self\<lparr>fps_counter := 29\<rparr>" t1 t2] d by simp
    ultimately show ?thesis by (simp add: fps_calls_append)
  qed
  show ?thesis
    using calculate_fps_below[of self t1 t2] calculate_fps_window[of self t1 t2] inv
      fps_calls_below[of self ts] full
    by blast
qed

text \<open>Thirty calls, the last one 1.5 seconds after the window start: 20 frames per second.\<close>

theorem fps_window_witness:
  "0 \<le> fps_counter ui0 \<and> fps_counter ui0 < 30 \<and> fps_counter ui0 = 0
   \<and> length (replicate 29 (0::rat, 0::rat)) = 29 \<and> fsub (3 / 2) (fps_start_time ui0) \<noteq> 0
   \<and> fps_calls (replicate 29 (0, 0) @ [(3 / 2, 25 / 16)]) ui0
       = Inr (ui0\<lparr>current_fps := 20, fps_counter := 0, fps_start_time := 25 / 16\<rparr>)
   \<and> fps_calls (replicate 29 (0, 0)) ui0 = Inr (ui0\<lparr>fps_counter := 29\<rparr>)
   \<and> calculate_fps (3 / 2) (25 / 16) ui0 = Inr (ui0\<lparr>fps_counter := 1\<rparr>)"
proof -
  have a: "0 \<le> fps_counter ui0" "fps_counter ui0 < 30" and c: "fps_counter ui0 = 0"
    and s: "fps_start_time ui0 = 0"
    by (simp_all add: ui0_def init_def)
  have d: "fsub (3 / 2) (fps_start_time ui0) = 3 / 2" unfolding s by (simp add: fsub_def fl_3_2)
  have e: "fl 20 = 20" by (rule fl_20)
  show ?thesis
    using fps_window[OF a, of "3 / 2" "25 / 16" "replicate 29 (0, 0)"] a c
    by (simp add: d e)
qed

subsection \<open>The threshold\<close>

lemma ords:
  "ord CHR ''q'' = 113" "ord CHR ''Q'' = 81" "ord CHR ''s'' = 115" "ord CHR ''S'' = 83"
  "ord CHR ''p'' = 112" "ord CHR ''P'' = 80" "ord CHR ''r'' = 114" "ord CHR ''R'' = 82"
  "ord CHR ''+'' = 43" "ord CHR ''='' = 61" "ord CHR ''-'' = 45"
  by (simp_all add: ord_def)

lemma increase_range:
  assumes "lit_0_1 \<le> t" and "t \<le> 1"
  shows "lit_0_1 \<le> min lit_1_0 (fadd t lit_0_05)" and "min lit_1_0 (fadd t lit_0_05) \<le> 1"
    and "t \<le> min lit_1_0 (fadd t lit_0_05)" and "t < 1 \<Longrightarrow> t < min lit_1_0 (fadd t lit_0_05)"
proof -
  have "- (fadd t lit_0_05 - (t + 1 / 20)) \<le> 1 / 2 ^ 52"
    using fadd_step[OF assms] by (rule abs_le_D2)
  moreover have "(1::rat) / 2 ^ 52 < 1 / 20" by simp
  ultimately have gt: "t < fadd t lit_0_05" by linarith
  show "lit_0_1 \<le> min lit_1_0 (fadd t lit_0_05)"
    using gt assms by (simp add: lit_1_0 lit_0_1)
  show "min lit_1_0 (fadd t lit_0_05) \<le> 1" by (simp add: lit_1_0)
  show "t \<le> min lit_1_0 (fadd t lit_0_05)" using gt assms by (simp add: lit_1_0)
  show "t < 1 \<Longrightarrow> t < min lit_1_0 (fadd t lit_0_05)" using gt by (simp add: lit_1_0)
qed

lemma decrease_range:
  assumes "lit_0_1 \<le> t" and "t \<le> 1"
  shows "lit_0_1 \<le> max lit_0_1 (fsub t lit_0_05)" and "max lit_0_1 (fsub t lit_0_05) \<le> 1"
    and "max lit_0_1 (fsub t lit_0_05) \<le> t" and "lit_0_1 < t \<Longrightarrow> max lit_0_1 (fsub t lit_0_05) < t"
proof -
  have "fsub t lit_0_05 - (t - 1 / 20) \<le> 1 / 2 ^ 52"
    using fsub_step[OF assms] by (rule abs_le_D1)
  moreover have "(1::rat) / 2 ^ 52 < 1 / 20" by simp
  ultimately have lt: "fsub t lit_0_05 < t" by linarith
  show "lit_0_1 \<le> max lit_0_1 (fsub t lit_0_05)" by simp
  show "max lit_0_1 (fsub t lit_0_05) \<le> 1" using lt assms by (simp add: lit_0_1)
  show "max lit_0_1 (fsub t lit_0_05) \<le> t" using lt assms by simp
  show "lit_0_1 < t \<Longrightarrow> max lit_0_1 (fsub t lit_0_05) < t" using lt by simp
qed

lemma handle_key_plus:
  "k AND 255 = 43 \<or> k AND 255 = 61 \<Longrightarrow>
   handle_key k self = Some (self\<lparr>thres := min lit_1_0 (fadd (thres self) lit_0_05)\<rparr>)"
  by (auto simp add: handle_key_def ords Let_def)

lemma handle_key_minus:
  "k AND 255 = 45 \<Longrightarrow>
   handle_key k self = Some (self\<lparr>thres := max lit_0_1 (fsub (thres self) lit_0_05)\<rparr>)"
  by (simp add: handle_key_def ords Let_def)

lemma handle_key_range:
  assumes "lit_0_1 \<le> thres self" and "thres self \<le> 1" and "handle_key k self = Some self'"
  shows "lit_0_1 \<le> thres self' \<and> thres self' \<le> 1"
  using assms increase_range(1,2)[OF assms(1,2)] decrease_range(1,2)[OF assms(1,2)]
  by (auto simp add: handle_key_def Let_def split: if_splits)

lemma handle_keys_range:
  assumes "lit_0_1 \<le> thres self" and "thres self \<le> 1" and "handle_keys ks self = Some self'"
  shows "lit_0_1 \<le> thres self' \<and> thres self' \<le> 1"
  using assms
proof (induction ks arbitrary: self)
  case Nil
  then show ?case by simp
next
  case (Cons k ks)
  from Cons.prems(3) obtain s where s: "handle_key k self = Some s" and r: "handle_keys ks s = Some self'"
    by (auto split: option.splits)
  have "lit_0_1 \<le> thres s \<and> thres s \<le> 1"
    using Cons.prems(1,2) s by (rule handle_key_range)
  then show ?case using Cons.IH[of s] r by simp
qed

lemma handle_keys_threshold_total:
  assumes "\<forall>k \<in> set ks. k AND 255 \<in> {43, 61, 45}"
  shows "\<exists>self'. handle_keys ks self = Some self'"
  using assms
proof (induction ks arbitrary: self)
  case Nil
  then show ?case by simp
next
  case (Cons k ks)
  then have "k AND 255 = 43 \<or> k AND 255 = 61 \<or> k AND 255 = 45" by simp
  then obtain s where "handle_key k self = Some s"
    using handle_key_plus[of k self] handle_key_minus[of k self] by blast
  then show ?case using Cons by simp
qed

text \<open>The steps from 0.5 downwards, and two steps upwards, in binary64.\<close>

lemma down_1: "fsub (1 / 2) lit_0_05 = 8106479329266893 / 18014398509481984"
proof -
  have "fl (32425917317067571 / 72057594037927936) = of_int (round_half_even ((32425917317067571 / 72057594037927936) / pow2 ((-2) - 52))) * pow2 ((-2) - 52)"
    by (rule fl_in_binade) (simp_all add: pow2_def)
  also have "\<dots> = 8106479329266893 / 18014398509481984"
    by (simp add: pow2_def round_half_even_def Let_def floor_rat_numeral)
  finally show ?thesis by (simp add: fsub_def lit_0_05)
qed

lemma down_2: "fsub (8106479329266893 / 18014398509481984) lit_0_05 = 3602879701896397 / 9007199254740992"
proof -
  have "fl (28823037615171175 / 72057594037927936) = of_int (round_half_even ((28823037615171175 / 72057594037927936) / pow2 ((-2) - 52))) * pow2 ((-2) - 52)"
    by (rule fl_in_binade) (simp_all add: pow2_def)
  also have "\<dots> = 3602879701896397 / 9007199254740992"
    by (simp add: pow2_def round_half_even_def Let_def floor_rat_numeral)
  finally show ?thesis by (simp add: fsub_def lit_0_05)
qed

lemma down_3: "fsub (3602879701896397 / 9007199254740992) lit_0_05 = 6305039478318695 / 18014398509481984"
proof -
  have "fl (25220157913274779 / 72057594037927936) = of_int (round_half_even ((25220157913274779 / 72057594037927936) / pow2 ((-2) - 52))) * pow2 ((-2) - 52)"
    by (rule fl_in_binade) (simp_all add: pow2_def)
  also have "\<dots> = 6305039478318695 / 18014398509481984"
    by (simp add: pow2_def round_half_even_def Let_def floor_rat_numeral)
  finally show ?thesis by (simp add: fsub_def lit_0_05)
qed

lemma down_4: "fsub (6305039478318695 / 18014398509481984) lit_0_05 = 1351079888211149 / 4503599627370496"
proof -
  have "fl (21617278211378383 / 72057594037927936) = of_int (round_half_even ((21617278211378383 / 72057594037927936) / pow2 ((-2) - 52))) * pow2 ((-2) - 52)"
    by (rule fl_in_binade) (simp_all add: pow2_def)
  also have "\<dots> = 1351079888211149 / 4503599627370496"
    by (simp add: pow2_def round_half_even_def Let_def floor_rat_numeral)
  finally show ?thesis by (simp add: fsub_def lit_0_05)
qed

lemma down_5: "fsub (1351079888211149 / 4503599627370496) lit_0_05 = 4503599627370497 / 18014398509481984"
proof -
  have "fl (18014398509481987 / 72057594037927936) = of_int (round_half_even ((18014398509481987 / 72057594037927936) / pow2 ((-2) - 52))) * pow2 ((-2) - 52)"
    by (rule fl_in_binade) (simp_all add: pow2_def)
  also have "\<dots> = 4503599627370497 / 18014398509481984"
    by (simp add: pow2_def round_half_even_def Let_def floor_rat_numeral)
  finally show ?thesis by (simp add: fsub_def lit_0_05)
qed

lemma down_6: "fsub (4503599627370497 / 18014398509481984) lit_0_05 = 1801439850948199 / 9007199254740992"
proof -
  have "fl (14411518807585591 / 72057594037927936) = of_int (round_half_even ((14411518807585591 / 72057594037927936) / pow2 ((-3) - 52))) * pow2 ((-3) - 52)"
    by (rule fl_in_binade) (simp_all add: pow2_def)
  also have "\<dots> = 1801439850948199 / 9007199254740992"
    by (simp add: pow2_def round_half_even_def Let_def floor_rat_numeral)
  finally show ?thesis by (simp add: fsub_def lit_0_05)
qed

lemma down_7: "fsub (1801439850948199 / 9007199254740992) lit_0_05 = 2702159776422299 / 18014398509481984"
proof -
  have "fl (10808639105689195 / 72057594037927936) = of_int (round_half_even ((10808639105689195 / 72057594037927936) / pow2 ((-3) - 52))) * pow2 ((-3) - 52)"
    by (rule fl_in_binade) (simp_all add: pow2_def)
  also have "\<dots> = 2702159776422299 / 18014398509481984"
    by (simp add: pow2_def round_half_even_def Let_def floor_rat_numeral)
  finally show ?thesis by (simp add: fsub_def lit_0_05)
qed

lemma down_8: "fsub (2702159776422299 / 18014398509481984) lit_0_05 = 7205759403792799 / 72057594037927936"
proof -
  have "fl (7205759403792799 / 72057594037927936) = of_int (round_half_even ((7205759403792799 / 72057594037927936) / pow2 ((-4) - 52))) * pow2 ((-4) - 52)"
    by (rule fl_in_binade) (simp_all add: pow2_def)
  also have "\<dots> = 7205759403792799 / 72057594037927936"
    by (simp add: pow2_def round_half_even_def Let_def floor_rat_numeral)
  finally show ?thesis by (simp add: fsub_def lit_0_05)
qed

lemma down_9: "fsub (7205759403792799 / 72057594037927936) lit_0_05 = 1801439850948201 / 36028797018963968"
proof -
  have "fl (1801439850948201 / 36028797018963968) = of_int (round_half_even ((1801439850948201 / 36028797018963968) / pow2 ((-5) - 52))) * pow2 ((-5) - 52)"
    by (rule fl_in_binade) (simp_all add: pow2_def)
  also have "\<dots> = 1801439850948201 / 36028797018963968"
    by (simp add: pow2_def round_half_even_def Let_def floor_rat_numeral)
  finally show ?thesis by (simp add: fsub_def lit_0_05)
qed

lemma up_from_0_45: "fadd (8106479329266893 / 18014398509481984) lit_0_05 = 1 / 2"
proof -
  have "fl (36028797018963969 / 72057594037927936) = of_int (round_half_even ((36028797018963969 / 72057594037927936) / pow2 ((-1) - 52))) * pow2 ((-1) - 52)"
    by (rule fl_in_binade) (simp_all add: pow2_def)
  also have "\<dots> = 1 / 2"
    by (simp add: pow2_def round_half_even_def Let_def floor_rat_numeral)
  finally show ?thesis by (simp add: fadd_def lit_0_05)
qed

lemma up_from_0_5: "fadd (1 / 2) lit_0_05 = 2476979795053773 / 4503599627370496"
proof -
  have "fl (39631676720860365 / 72057594037927936) = of_int (round_half_even ((39631676720860365 / 72057594037927936) / pow2 ((-1) - 52))) * pow2 ((-1) - 52)"
    by (rule fl_in_binade) (simp_all add: pow2_def)
  also have "\<dots> = 2476979795053773 / 4503599627370496"
    by (simp add: pow2_def round_half_even_def Let_def floor_rat_numeral)
  finally show ?thesis by (simp add: fadd_def lit_0_05)
qed

text \<open>
  Claim C5, as stated, fails in its second half. Eight decreases from 0.5 leave the
  threshold at 0.10000000000000007, which is above the lower bound 0.1 and so not at the
  boundary; the ninth decrease moves it to 0.1, a change of \<open>5 / 2^56\<close>, not of 0.05.
\<close>

theorem threshold_step_counterexample:
  "handle_keys (replicate 8 (ord CHR ''-'')) ui0
     = Some (ui0\<lparr>thres := 7205759403792799 / 72057594037927936\<rparr>)
   \<and> lit_0_1 < 7205759403792799 / 72057594037927936
   \<and> handle_key (ord CHR ''-'') (ui0\<lparr>thres := 7205759403792799 / 72057594037927936\<rparr>)
     = Some (ui0\<lparr>thres := lit_0_1\<rparr>)
   \<and> 7205759403792799 / 72057594037927936 - lit_0_1 = 5 / 72057594037927936"
proof -
  have k: "ord CHR ''-'' AND 255 = 45" by (simp add: ords)
  have t0: "thres ui0 = 1 / 2" by (simp add: ui0_def init_def lit_0_5)
  have 8: "replicate 8 (ord CHR ''-'') = [45, 45, 45, 45, 45, 45, 45, 45]"
    by (simp add: ords eval_nat_numeral)
  have "handle_keys (replicate 8 (ord CHR ''-'')) ui0
     = Some (ui0\<lparr>thres := 7205759403792799 / 72057594037927936\<rparr>)"
    unfolding 8
    by (simp add: handle_key_minus t0 lit_0_1 down_1 down_2 down_3 down_4 down_5 down_6 down_7 down_8)
  moreover have "handle_key (ord CHR ''-'') (ui0\<lparr>thres := 7205759403792799 / 72057594037927936\<rparr>)
     = Some (ui0\<lparr>thres := lit_0_1\<rparr>)"
    by (simp add: handle_key_minus[OF k] down_9 lit_0_1)
  ultimately show ?thesis by (simp add: lit_0_1)
qed

text \<open>
  Claim C5, amended. From a threshold in \<open>[0.1, 1.0]\<close> (it starts at 0.5), any sequence of
  increase and decrease keys is handled without error and leaves the threshold in
  \<open>[0.1, 1.0]\<close>. A single increase sets it to the binary64 sum with 0.05, which is within
  \<open>2^-52\<close> of a step of 0.05, unless that sum exceeds 1.0, in which case it is set to 1.0;
  a single decrease sets it to the binary64 difference, unless that is below 0.1, in which
  case it is set to 0.1. The clamp can cut a step short from a value that is not at the
  boundary.
\<close>

theorem threshold_clamped_steps:
  assumes "lit_0_1 \<le> thres self" and "thres self \<le> lit_1_0"
    and "set (map (\<lambda>k. k AND 255) ks) \<subseteq> {ord CHR ''+'', ord CHR ''='', ord CHR ''-''}"
  shows "(\<exists>self'. handle_keys ks self = Some self' \<and> lit_0_1 \<le> thres self' \<and> thres self' \<le> lit_1_0)
       \<and> (k AND 255 = ord CHR ''+'' \<or> k AND 255 = ord CHR ''='' \<longrightarrow>
            handle_key k self =
              Some (self\<lparr>thres := (if fadd (thres self) lit_0_05 \<le> lit_1_0
                                      then fadd (thres self) lit_0_05 else lit_1_0)\<rparr>)
            \<and> \<bar>fadd (thres self) lit_0_05 - (thres self + 1 / 20)\<bar> \<le> 1 / 2 ^ 52)
       \<and> (k AND 255 = ord CHR ''-'' \<longrightarrow>
            handle_key k self =
              Some (self\<lparr>thres := (if lit_0_1 \<le> fsub (thres self) lit_0_05
                                      then fsub (thres self) lit_0_05 else lit_0_1)\<rparr>)
            \<and> \<bar>fsub (thres self) lit_0_05 - (thres self - 1 / 20)\<bar> \<le> 1 / 2 ^ 52)"
proof -
  have r: "lit_0_1 \<le> thres self" "thres self \<le> 1"
    using assms(1,2) by (simp_all add: lit_1_0)
  have "\<forall>k \<in> set ks. k AND 255 \<in> {43, 61, 45}"
    using assms(3) by (auto simp add: ords)
  then obtain self' where s: "handle_keys ks self = Some self'"
    using handle_keys_threshold_total by blast
  have "lit_0_1 \<le> thres self' \<and> thres self' \<le> lit_1_0"
    using handle_keys_range[OF r s] by (simp add: lit_1_0)
  with s have 1: "\<exists>self'. handle_keys ks self = Some self' \<and> lit_0_1 \<le> thres self' \<and> thres self' \<le> lit_1_0"
    by blast
  have 2: "handle_key k self =
              Some (self\<lparr>thres := (if fadd (thres self) lit_0_05 \<le> lit_1_0
                                      then fadd (thres self) lit_0_05 else lit_1_0)\<rparr>)"
    if "k AND 255 = ord CHR ''+'' \<or> k AND 255 = ord CHR ''=''"
    using that handle_key_plus[of k self] by (simp add: ords min_def not_le le_less)
  have 3: "handle_key k self =
              Some (self\<lparr>thres := (if lit_0_1 \<le> fsub (thres self) lit_0_05
                                      then fsub (thres self) lit_0_05 else lit_0_1)\<rparr>)"
    if "k AND 255 = ord CHR ''-''"
    using that handle_key_minus[of k self] by (simp add: ords max_def)
  show ?thesis
    using 1 2 3 fadd_step[OF r] fsub_step[OF r] by blast
qed

text \<open>From 0.5: down to 0.45, up to 0.5, up to 0.55.\<close>

theorem threshold_clamped_steps_witness:
  "lit_0_1 \<le> thres ui0 \<and> thres ui0 \<le> lit_1_0
   \<and> handle_keys [ord CHR ''-'', ord CHR ''+'', ord CHR ''=''] ui0
       = Some (ui0\<lparr>thres := 2476979795053773 / 4503599627370496\<rparr>)
   \<and> lit_0_1 \<le> 2476979795053773 / 4503599627370496 \<and> 2476979795053773 / 4503599627370496 \<le> lit_1_0
   \<and> handle_key (ord CHR ''+'') ui0 = Some (ui0\<lparr>thres := 2476979795053773 / 4503599627370496\<rparr>)
   \<and> handle_key (ord CHR ''-'') ui0 = Some (ui0\<lparr>thres := 8106479329266893 / 18014398509481984\<rparr>)"
proof -
  have a: "lit_0_1 \<le> thres ui0" and b: "thres ui0 \<le> lit_1_0"
    by (simp_all add: ui0_def init_def lit_0_1 lit_1_0 lit_0_5)
  have c: "set (map (\<lambda>k. k AND 255) [ord CHR ''-'', ord CHR ''+'', ord CHR ''=''])
           \<subseteq> {ord CHR ''+'', ord CHR ''='', ord CHR ''-''}"
    by (simp add: ords)
  have t0: "thres ui0 = 1 / 2" by (simp add: ui0_def init_def lit_0_5)
  have d: "handle_keys [ord CHR ''-'', ord CHR ''+'', ord CHR ''=''] ui0
       = Some (ui0\<lparr>thres := 2476979795053773 / 4503599627370496\<rparr>)"
    by (simp add: ords handle_key_minus handle_key_plus t0 lit_0_1 lit_1_0 down_1
        up_from_0_45 up_from_0_5)
  have k: "ord CHR ''+'' AND 255 = ord CHR ''+''" "ord CHR ''-'' AND 255 = ord CHR ''-''"
    by (simp_all add: ords)
  have up: "handle_key (ord CHR ''+'') ui0 = Some (ui0\<lparr>thres := 2476979795053773 / 4503599627370496\<rparr>)"
    using threshold_clamped_steps[OF a b c, of "ord CHR ''+''"] k
    by (simp add: t0 up_from_0_5 lit_1_0)
  have down: "handle_key (ord CHR ''-'') ui0 = Some (ui0\<lparr>thres := 8106479329266893 / 18014398509481984\<rparr>)"
    using threshold_clamped_steps[OF a b c, of "ord CHR ''-''"] k
    by (simp add: t0 down_1 lit_0_1 ords)
  show ?thesis
    using threshold_clamped_steps[OF a b c, of "ord CHR ''+''"] a b d up down by auto
qed

subsection \<open>Keys\<close>

lemma quit_breaks:
  assumes "waitKey w AND 255 = ord CHR ''q'' \<or> waitKey w AND 255 = ord CHR ''Q''"
  shows "iteration lib w st \<noteq> Continue self' img'"
  using assms
  by (auto simp add: iteration_def handle_key_def Let_def split_def
      split: if_splits option.splits sum.splits)

text \<open>
  Claim C8. On the low byte of the key code: \<open>q\<close> or \<open>Q\<close> ends the loop (the pass does not
  continue); \<open>s\<close> or \<open>S\<close> flips \<open>show_stats\<close> and nothing else, so twice restores the state;
  \<open>p\<close> or \<open>P\<close> flips \<open>paused\<close> and nothing else; \<open>r\<close> or \<open>R\<close> empties the history and
  nothing else; \<open>+\<close> or \<open>=\<close> sets the threshold to the clamped sum with 0.05, which for a
  threshold in range is not smaller, and larger below 1.0; \<open>-\<close> sets it to the clamped
  difference, not larger, and smaller above 0.1; any other code, 255 for no key included,
  leaves the state as it is. No branch raises.
\<close>

theorem command_routing:
  "(k AND 255 = ord CHR ''q'' \<or> k AND 255 = ord CHR ''Q'' \<longrightarrow>
      handle_key k self = None \<and> (waitKey w = k \<longrightarrow> iteration lib w st \<noteq> Continue self' img'))
 \<and> (k AND 255 = ord CHR ''s'' \<or> k AND 255 = ord CHR ''S'' \<longrightarrow>
      handle_key k self = Some (self\<lparr>show_stats := \<not> show_stats self\<rparr>)
      \<and> handle_keys [k, k] self = Some self)
 \<and> (k AND 255 = ord CHR ''p'' \<or> k AND 255 = ord CHR ''P'' \<longrightarrow>
      handle_key k self = Some (self\<lparr>paused := \<not> paused self\<rparr>))
 \<and> (k AND 255 = ord CHR ''r'' \<or> k AND 255 = ord CHR ''R'' \<longrightarrow>
      handle_key k self = Some (self\<lparr>detection_history := []\<rparr>))
 \<and> (k AND 255 = ord CHR ''+'' \<or> k AND 255 = ord CHR ''='' \<longrightarrow>
      handle_key k self = Some (self\<lparr>thres := min lit_1_0 (fadd (thres self) lit_0_05)\<rparr>)
      \<and> (lit_0_1 \<le> thres self \<and> thres self \<le> lit_1_0 \<longrightarrow>
           thres self \<le> min lit_1_0 (fadd (thres self) lit_0_05)
           \<and> (thres self < lit_1_0 \<longrightarrow> thres self < min lit_1_0 (fadd (thres self) lit_0_05))))
 \<and> (k AND 255 = ord CHR ''-'' \<longrightarrow>
      handle_key k self = Some (self\<lparr>thres := max lit_0_1 (fsub (thres self) lit_0_05)\<rparr>)
      \<and> (lit_0_1 \<le> thres self \<and> thres self \<le> lit_1_0 \<longrightarrow>
           max lit_0_1 (fsub (thres self) lit_0_05) \<le> thres self
           \<and> (lit_0_1 < thres self \<longrightarrow> max lit_0_1 (fsub (thres self) lit_0_05) < thres self)))
 \<and> (k AND 255 \<notin> ord ` {CHR ''q'', CHR ''Q'', CHR ''s'', CHR ''S'', CHR ''p'', CHR ''P'',
                         CHR ''r'', CHR ''R'', CHR ''+'', CHR ''='', CHR ''-''} \<longrightarrow>
      handle_key k self = Some self)"
proof -
  have q: "handle_key k self = None \<and> (waitKey w = k \<longrightarrow> iteration lib w st \<noteq> Continue self' img')"
    if "k AND 255 = ord CHR ''q'' \<or> k AND 255 = ord CHR ''Q''"
    using that quit_breaks[of w lib st self' img'] by (auto simp add: handle_key_def Let_def)
  have s: "handle_key k self = Some (self\<lparr>show_stats := \<not> show_stats self\<rparr>)
      \<and> handle_keys [k, k] self = Some self"
    if "k AND 255 = ord CHR ''s'' \<or> k AND 255 = ord CHR ''S''"
    using that by (auto simp add: handle_key_def ords Let_def)
  have p: "handle_key k self = Some (self\<lparr>paused := \<not> paused self\<rparr>)"
    if "k AND 255 = ord CHR ''p'' \<or> k AND 255 = ord CHR ''P''"
    using that by (auto simp add: handle_key_def ords Let_def)
  have r: "handle_key k self = Some (self\<lparr>detection_history := []\<rparr>)"
    if "k AND 255 = ord CHR ''r'' \<or> k AND 255 = ord CHR ''R''"
    using that by (auto simp add: handle_key_def ords Let_def)
  have plus: "handle_key k self = Some (self\<lparr>thres := min lit_1_0 (fadd (thres self) lit_0_05)\<rparr>)"
    if "k AND 255 = ord CHR ''+'' \<or> k AND 255 = ord CHR ''=''"
    using that handle_key_plus[of k self] by (simp add: ords)
  have minus: "handle_key k self = Some (self\<lparr>thres := max lit_0_1 (fsub (thres self) lit_0_05)\<rparr>)"
    if "k AND 255 = ord CHR ''-''"
    using that handle_key_minus[of k self] by (simp add: ords)
  have up: "thres self \<le> min lit_1_0 (fadd (thres self) lit_0_05)
           \<and> (thres self < lit_1_0 \<longrightarrow> thres self < min lit_1_0 (fadd (thres self) lit_0_05))"
    if "lit_0_1 \<le> thres self \<and> thres self \<le> lit_1_0"
    using that increase_range(3,4)[of "thres self"] by (simp add: lit_1_0)
  have down: "max lit_0_1 (fsub (thres self) lit_0_05) \<le> thres self
           \<and> (lit_0_1 < thres self \<longrightarrow> max lit_0_1 (fsub (thres self) lit_0_05) < thres self)"
    if "lit_0_1 \<le> thres self \<and> thres self \<le> lit_1_0"
    using that decrease_range(3,4)[of "thres self"] by (simp add: lit_1_0)
  have other: "handle_key k self = Some self"
    if "k AND 255 \<notin> ord ` {CHR ''q'', CHR ''Q'', CHR ''s'', CHR ''S'', CHR ''p'', CHR ''P'',
                         CHR ''r'', CHR ''R'', CHR ''+'', CHR ''='', CHR ''-''}"
    using that by (simp add: handle_key_def Let_def)
  show ?thesis
    using q s p r plus minus up down other by blast
qed

theorem command_routing_witness:
  "handle_key (ord CHR ''Q'') ui0 = None
   \<and> handle_keys [ord CHR ''s'', ord CHR ''s''] ui0 = Some ui0
   \<and> handle_key (ord CHR ''P'') ui0 = Some (ui0\<lparr>paused := True\<rparr>)
   \<and> handle_key (ord CHR ''r'') ui1 = Some (ui1\<lparr>detection_history := []\<rparr>)
   \<and> handle_key (ord CHR ''='') ui0 = Some (ui0\<lparr>thres := 2476979795053773 / 4503599627370496\<rparr>)
   \<and> handle_key (ord CHR ''-'') ui0 = Some (ui0\<lparr>thres := 8106479329266893 / 18014398509481984\<rparr>)
   \<and> handle_key (- 1) ui0 = Some ui0"
proof -
  have t0: "thres ui0 = 1 / 2" by (simp add: ui0_def init_def lit_0_5)
  have e: "min lit_1_0 (fadd (thres ui0) lit_0_05) = 2476979795053773 / 4503599627370496"
    "max lit_0_1 (fsub (thres ui0) lit_0_05) = 8106479329266893 / 18014398509481984"
    by (simp_all add: t0 up_from_0_5 down_1 lit_1_0 lit_0_1)
  have x: "\<not> paused ui0"
    by (simp add: ui0_def init_def)
  have 1: "handle_key (ord CHR ''Q'') ui0 = None"
    using command_routing[of "ord CHR ''Q''" ui0 w0 lib0 "(ui0, None)" ui0 frame0]
    by (simp add: ords)
  have 2: "handle_keys [ord CHR ''s'', ord CHR ''s''] ui0 = Some ui0"
    using command_routing[of "ord CHR ''s''" ui0 w0 lib0 "(ui0, None)" ui0 frame0]
    by (simp add: ords del: handle_keys.simps)
  have 3: "handle_key (ord CHR ''P'') ui0 = Some (ui0\<lparr>paused := True\<rparr>)"
    using command_routing[of "ord CHR ''P''" ui0 w0 lib0 "(ui0, None)" ui0 frame0] x
    by (simp add: ords)
  have 4: "handle_key (ord CHR ''r'') ui1 = Some (ui1\<lparr>detection_history := []\<rparr>)"
    using command_routing[of "ord CHR ''r''" ui1 w0 lib0 "(ui0, None)" ui0 frame0]
    by (simp add: ords)
  have 5: "handle_key (ord CHR ''='') ui0 = Some (ui0\<lparr>thres := 2476979795053773 / 4503599627370496\<rparr>)"
    using command_routing[of "ord CHR ''=''" ui0 w0 lib0 "(ui0, None)" ui0 frame0]
    by (simp add: ords e)
  have 6: "handle_key (ord CHR ''-'') ui0 = Some (ui0\<lparr>thres := 8106479329266893 / 18014398509481984\<rparr>)"
    using command_routing[of "ord CHR ''-''" ui0 w0 lib0 "(ui0, None)" ui0 frame0]
    by (simp add: ords e)
  have 7: "handle_key (- 1) ui0 = Some ui0"
    using command_routing[of "- 1" ui0 w0 lib0 "(ui0, None)" ui0 frame0]
    by (simp add: ords)
  from 1 2 3 4 5 6 7 show ?thesis by (intro conjI)
qed

subsection \<open>Detections are not validated\<close>




















end
